theory Spec2Isabelle
  imports Main "HOL-Library.AList" "HOL-Library.Sublist" "HOL-Library.Multiset"
    "HOL-Library.Char_ord" "HOL-Library.Word"
begin

section \<open>Go values\<close>

text \<open>
  A Go \<^verbatim>\<open>string\<close> and a \<^verbatim>\<open>[]byte\<close> are sequences of bytes: \<^typ>\<open>string\<close>, and
  \<^term>\<open>length\<close> is Go's \<^verbatim>\<open>len\<close>.

  A Go map is an association list whose keys are pairwise distinct. The order of the list
  is the order in which a \<^verbatim>\<open>range\<close> loop visits the entries; Go leaves that order open,
  so the theorems below are stated for every order. \<^verbatim>\<open>m[k] = v\<close> is
  \<^const>\<open>AList.update\<close>, and \<^verbatim>\<open>len(m)\<close> is the length of the list.
\<close>

type_synonym ('k, 'v) gomap = "('k \<times> 'v) list"

definition keys :: "('k, 'v) gomap \<Rightarrow> 'k set" where
  "keys m = fst ` set m"

text \<open>\<^verbatim>\<open>strings.ContainsAny(s, chars)\<close> for an ASCII \<^verbatim>\<open>chars\<close>, and
  \<^verbatim>\<open>strings.Contains\<close> / \<^verbatim>\<open>bytes.Contains\<close>.\<close>

definition ContainsAny :: "string \<Rightarrow> string \<Rightarrow> bool" where
  "ContainsAny s chars = list_ex (\<lambda>c. c \<in> set chars) s"

definition Contains :: "string \<Rightarrow> string \<Rightarrow> bool" where
  "Contains s substr = sublist substr s"

datatype error =
    JsonDecodeError
  | ParseRulesError error
  | OpenFileError string
  | WriteError string
  | FlushError string
  | DirNotExistError string
  | CreateClientError
  | ReadURLFileError string
  | MissingURLSourceError

section \<open>internal/rules: the rule compiler\<close>

record 'r CompiledRules =
  Regex :: "(string, 'r) gomap"
  Literal :: "(string, string) gomap"

text \<open>What \<^verbatim>\<open>CompileRules\<close> prints on standard output.\<close>

datatype diagnostic =
    WarnEmptyPattern string
  | WarnCompileFailed string string
  | CompileSummary nat nat

text \<open>\<^verbatim>\<open>JsonToMap\<close>: the decoder of \<^verbatim>\<open>encoding/json\<close> is the parameter \<open>decode\<close>
  (\<^const>\<open>None\<close> when \<^verbatim>\<open>Decode\<close> returns an error).\<close>

definition JsonToMap ::
  "(string \<Rightarrow> (string, string) gomap option) \<Rightarrow> string \<Rightarrow> error + (string, string) gomap" where
  "JsonToMap decode jsonStr =
     (case decode jsonStr of
        None \<Rightarrow> Inl JsonDecodeError
      | Some m \<Rightarrow> Inr m)"

definition isLiteralPattern :: "string \<Rightarrow> bool" where
  "isLiteralPattern pattern =
     (\<not> ContainsAny pattern ''.+*?()|[]{}^$'' \<and> \<not> Contains pattern [CHR 0x5C])"

text \<open>The body of the loop of \<^verbatim>\<open>CompileRules\<close> over one entry of the rule map.
  \<^verbatim>\<open>regexp.Compile\<close> is the parameter \<open>compile\<close> (\<^const>\<open>None\<close> when it returns an
  error).\<close>

fun compileRule ::
  "(string \<Rightarrow> 'r option) \<Rightarrow> string \<times> string \<Rightarrow>
   'r CompiledRules \<times> diagnostic list \<Rightarrow> 'r CompiledRules \<times> diagnostic list" where
  "compileRule compile (name, pattern) (compiled, out) =
     (if pattern = [] then (compiled, out @ [WarnEmptyPattern name])
      else if isLiteralPattern pattern
      then (compiled\<lparr>Literal := AList.update name pattern (Literal compiled)\<rparr>, out)
      else (case compile pattern of
              None \<Rightarrow>
                (compiled\<lparr>Literal := AList.update name pattern (Literal compiled)\<rparr>,
                 out @ [WarnCompileFailed name pattern])
            | Some reg \<Rightarrow>
                (compiled\<lparr>Regex := AList.update name reg (Regex compiled)\<rparr>, out)))"

definition compileLoop ::
  "(string \<Rightarrow> 'r option) \<Rightarrow> (string, string) gomap \<Rightarrow> 'r CompiledRules \<times> diagnostic list" where
  "compileLoop compile ruleMap =
     fold (compileRule compile) ruleMap (\<lparr>Regex = [], Literal = []\<rparr>, [])"

definition CompileRules ::
  "(string \<Rightarrow> (string, string) gomap option) \<Rightarrow> (string \<Rightarrow> 'r option) \<Rightarrow> string \<Rightarrow>
   error + ('r CompiledRules \<times> diagnostic list)" where
  "CompileRules decode compile ruleJsonStr =
     (case JsonToMap decode ruleJsonStr of
        Inl err \<Rightarrow> Inl (ParseRulesError err)
      | Inr ruleMap \<Rightarrow>
          (case compileLoop compile ruleMap of
             (compiled, out) \<Rightarrow>
               Inr (compiled,
                    out @ [CompileSummary (length (Regex compiled)) (length (Literal compiled))])))"

section \<open>internal/scan: the content matcher\<close>

record ScanResult =
  Source :: string
  Rule :: string
  Match :: string

text \<open>\<^verbatim>\<open>processLiteralRules\<close>: the loop over the literal rules, with the slice
  \<^verbatim>\<open>results\<close> as accumulator.\<close>

fun literalLoop ::
  "string \<Rightarrow> string \<Rightarrow> (string, string) gomap \<Rightarrow> ScanResult list \<Rightarrow> ScanResult list" where
  "literalLoop source content [] results = results"
| "literalLoop source content ((ruleName, pattern) # rest) results =
     literalLoop source content rest
       (if Contains content pattern
        then results @ [\<lparr>Source = source, Rule = ruleName, Match = pattern\<rparr>]
        else results)"

definition processLiteralRules ::
  "string \<Rightarrow> string \<Rightarrow> (string, string) gomap \<Rightarrow> ScanResult list" where
  "processLiteralRules source content literalRules = literalLoop source content literalRules []"

text \<open>\<^verbatim>\<open>processRegexRulesSerially\<close>. \<^verbatim>\<open>reg.FindAll(content, -1)\<close> is the parameter
  \<open>findAll\<close>. The inner loop admits a match when its length is in the open interval
  \<open>(0, 1024)\<close>.\<close>

fun matchLoop ::
  "string \<Rightarrow> string \<Rightarrow> string list \<Rightarrow> ScanResult list \<Rightarrow> ScanResult list" where
  "matchLoop source ruleName [] results = results"
| "matchLoop source ruleName (match # matches) results =
     matchLoop source ruleName matches
       (if length match > 0 \<and> length match < 1024
        then results @ [\<lparr>Source = source, Rule = ruleName, Match = match\<rparr>]
        else results)"

fun serialLoop ::
  "('r \<Rightarrow> string \<Rightarrow> string list) \<Rightarrow> string \<Rightarrow> string \<Rightarrow> (string, 'r) gomap \<Rightarrow>
   ScanResult list \<Rightarrow> ScanResult list" where
  "serialLoop findAll source content [] results = results"
| "serialLoop findAll source content ((ruleName, reg) # rest) results =
     serialLoop findAll source content rest
       (matchLoop source ruleName (findAll reg content) results)"

definition processRegexRulesSerially ::
  "('r \<Rightarrow> string \<Rightarrow> string list) \<Rightarrow> string \<Rightarrow> string \<Rightarrow> (string, 'r) gomap \<Rightarrow>
   ScanResult list" where
  "processRegexRulesSerially findAll source content regexRules =
     serialLoop findAll source content regexRules []"

text \<open>\<^verbatim>\<open>processRegexRulesConcurrently\<close>: one goroutine per rule sends its admitted
  matches, in order, to \<^verbatim>\<open>resultChan\<close>; the caller receives until the channel is
  closed, which happens once every goroutine is done.

  \<open>goroutineSends\<close> is the sequence of values one goroutine sends. The channel delivers
  an interleaving of these sequences. Which one is decided by the Go scheduler: the
  parameter \<open>sched\<close> lists, receive by receive, the index of the goroutine whose next
  value arrives; an entry naming a goroutine with nothing left to send is skipped, and
  whatever is still unsent when \<open>sched\<close> ends arrives goroutine after goroutine.\<close>

fun goroutineSends :: "string \<Rightarrow> string \<Rightarrow> string list \<Rightarrow> ScanResult list" where
  "goroutineSends source name [] = []"
| "goroutineSends source name (match # matches) =
     (if length match > 0 \<and> length match < 1024
      then \<lparr>Source = source, Rule = name, Match = match\<rparr> # goroutineSends source name matches
      else goroutineSends source name matches)"

fun receiveAll :: "nat list \<Rightarrow> 'a list list \<Rightarrow> 'a list" where
  "receiveAll [] pending = concat pending"
| "receiveAll (i # sched) pending =
     (if i < length pending
      then (case pending ! i of
              [] \<Rightarrow> receiveAll sched pending
            | x # xs \<Rightarrow> x # receiveAll sched (pending[i := xs]))
      else receiveAll sched pending)"

definition processRegexRulesConcurrently ::
  "('r \<Rightarrow> string \<Rightarrow> string list) \<Rightarrow> nat list \<Rightarrow> string \<Rightarrow> string \<Rightarrow> (string, 'r) gomap \<Rightarrow>
   ScanResult list" where
  "processRegexRulesConcurrently findAll sched source content regexRules =
     receiveAll sched
       (map (\<lambda>(ruleName, reg). goroutineSends source ruleName (findAll reg content)) regexRules)"

definition shouldBeConcurrent :: "bool \<Rightarrow> string \<Rightarrow> 'r CompiledRules \<Rightarrow> bool" where
  "shouldBeConcurrent useConcurrency content compiledRules =
     (useConcurrency \<and> length content > 1024 * 1024 \<and> length (Regex compiledRules) > 5)"

definition processContent ::
  "('r \<Rightarrow> string \<Rightarrow> string list) \<Rightarrow> nat list \<Rightarrow> string \<Rightarrow> string \<Rightarrow> 'r CompiledRules \<Rightarrow> bool \<Rightarrow>
   ScanResult list" where
  "processContent findAll sched sourceIdentifier content compiledRules useConcurrency =
     (let literalMatches = processLiteralRules sourceIdentifier content (Literal compiledRules);
          regexMatches =
            (if shouldBeConcurrent useConcurrency content compiledRules
             then processRegexRulesConcurrently findAll sched sourceIdentifier content
                    (Regex compiledRules)
             else processRegexRulesSerially findAll sourceIdentifier content
                    (Regex compiledRules))
      in literalMatches @ regexMatches)"

section \<open>internal/scan: the result writer\<close>

text \<open>
  The file system is a map from paths to file contents. What the operating system may
  refuse is a parameter of the model: \<open>openFails\<close> tells whether \<^verbatim>\<open>os.OpenFile\<close>
  returns an error for a path, \<open>readFails\<close> the same for \<^verbatim>\<open>os.ReadFile\<close>, and
  \<open>accepted path data\<close> is the number of bytes of \<open>data\<close> that a \<^verbatim>\<open>Write\<close> to the
  file puts on disk before it fails (\<open>length data\<close> or more when it does not fail).
\<close>

type_synonym fs = "string \<rightharpoonup> string"

record os =
  openFails :: "string \<Rightarrow> bool"
  readFails :: "string \<Rightarrow> bool"
  accepted :: "string \<Rightarrow> string \<Rightarrow> nat"

text \<open>\<^verbatim>\<open>os.OpenFile(filename, O_CREATE|O_WRONLY|O_APPEND, 0644)\<close>: the file exists
  afterwards.\<close>

definition OpenFile :: "os \<Rightarrow> string \<Rightarrow> fs \<Rightarrow> fs option" where
  "OpenFile sys filename files =
     (if openFails sys filename then None
      else Some (case files filename of
                   None \<Rightarrow> files(filename \<mapsto> [])
                 | Some old \<Rightarrow> files))"

text \<open>\<^verbatim>\<open>file.Write\<close> on a file opened with \<^verbatim>\<open>O_APPEND\<close>: the bytes written and the
  file system afterwards.\<close>

definition fileWrite :: "os \<Rightarrow> string \<Rightarrow> string \<Rightarrow> fs \<Rightarrow> nat \<times> fs" where
  "fileWrite sys filename data files =
     (let n = min (accepted sys filename data) (length data)
      in (n, files(filename \<mapsto> (case files filename of None \<Rightarrow> [] | Some old \<Rightarrow> old) @ take n data)))"

text \<open>\<^verbatim>\<open>fmt.Fprintf(buf, "[%s] %s: %s\n", ...)\<close> and the loop that fills \<^verbatim>\<open>buf\<close>.\<close>

definition formatResult :: "ScanResult \<Rightarrow> string" where
  "formatResult result =
     ''['' @ Source result @ ''] '' @ Rule result @ '': '' @ Match result @ [CHR 0x0A]"

fun formatLoop :: "ScanResult list \<Rightarrow> string \<Rightarrow> string" where
  "formatLoop [] buf = buf"
| "formatLoop (result # results) buf = formatLoop results (buf @ formatResult result)"

text \<open>\<^verbatim>\<open>WriteResultsToFile\<close>. It returns Go's \<^verbatim>\<open>error\<close> (\<^const>\<open>None\<close> is \<^verbatim>\<open>nil\<close>)
  and the file system afterwards. The \<^verbatim>\<open>bufio.Writer\<close> of 64 KiB passes a larger
  buffer straight to the file inside \<^verbatim>\<open>writer.Write\<close>, and keeps a smaller one until
  \<^verbatim>\<open>writer.Flush\<close>: the place of the failure decides which error is returned. The
  global mutex makes the call atomic.\<close>

definition WriteResultsToFile :: "os \<Rightarrow> string \<Rightarrow> ScanResult list \<Rightarrow> fs \<Rightarrow> error option \<times> fs" where
  "WriteResultsToFile sys filename results files =
     (if length results = 0 then (None, files)
      else (case OpenFile sys filename files of
              None \<Rightarrow> (Some (OpenFileError filename), files)
            | Some opened \<Rightarrow>
                (let buf = formatLoop results []
                 in case fileWrite sys filename buf opened of
                      (n, files') \<Rightarrow>
                        if length buf > 64 * 1024
                        then (if n < length buf then (Some (WriteError filename), files')
                              else (None, files'))
                        else (if n < length buf then (Some (FlushError filename), files')
                              else (None, files')))))"

text \<open>The lines of a text: the maximal runs without a newline, each ended by a newline
  (or by the end of the text, for a last run that is not empty).\<close>

fun splitLines :: "string \<Rightarrow> string \<Rightarrow> string list" where
  "splitLines cur [] = (if cur = [] then [] else [cur])"
| "splitLines cur (c # cs) =
     (if c = CHR 0x0A then cur # splitLines [] cs else splitLines (cur @ [c]) cs)"

definition linesOf :: "string \<Rightarrow> string list" where
  "linesOf text = splitLines [] text"

section \<open>internal/utils and the output path\<close>

text \<open>\<^verbatim>\<open>utf8.DecodeRuneInString\<close>: the number of bytes of the first rune of a non-empty
  string; an invalid or truncated encoding is the rune \<^verbatim>\<open>RuneError\<close> of width 1.\<close>

definition continuation :: "char \<Rightarrow> bool" where
  "continuation c = (CHR 0x80 \<le> c \<and> c \<le> CHR 0xBF)"

fun runeWidth :: "string \<Rightarrow> nat" where
  "runeWidth [] = 0"
| "runeWidth (b0 # rest) =
     (if b0 < CHR 0x80 then 1
      else if b0 < CHR 0xC2 \<or> CHR 0xF4 < b0 then 1
      else (let size = (if b0 < CHR 0xE0 then 2 else if b0 < CHR 0xF0 then 3 else 4 :: nat);
                lo = (if b0 = CHR 0xE0 then CHR 0xA0 else if b0 = CHR 0xF0 then CHR 0x90
                      else CHR 0x80);
                hi = (if b0 = CHR 0xED then CHR 0x9F else if b0 = CHR 0xF4 then CHR 0x8F
                      else CHR 0xBF)
            in if length rest + 1 < size then 1
               else if \<not> (lo \<le> rest ! 0 \<and> rest ! 0 \<le> hi) then 1
               else if size = 2 then 2
               else if \<not> continuation (rest ! 1) then 1
               else if size = 3 then 3
               else if \<not> continuation (rest ! 2) then 1
               else 4))"

declare runeWidth.simps [simp del]

text \<open>The function passed to \<^verbatim>\<open>strings.Map\<close>, on an ASCII rune.\<close>

definition sanitizeRune :: "char \<Rightarrow> char" where
  "sanitizeRune r =
     (if (CHR ''a'' \<le> r \<and> r \<le> CHR ''z'') \<or> (CHR ''A'' \<le> r \<and> r \<le> CHR ''Z'') \<or>
         (CHR ''0'' \<le> r \<and> r \<le> CHR ''9'') \<or> r = CHR ''_'' \<or> r = CHR ''-'' \<or> r = CHR ''.''
      then r else CHR ''_'')"

text \<open>\<^verbatim>\<open>strings.Map\<close> with that function: rune by rune. A rune that is not ASCII,
  \<^verbatim>\<open>RuneError\<close> included, is none of the allowed ones and becomes one underscore.\<close>

function mapRunes :: "string \<Rightarrow> string" where
  "mapRunes [] = []"
| "mapRunes (c # cs) =
     (if c < CHR 0x80 then sanitizeRune c else CHR ''_'') #
     mapRunes (drop (runeWidth (c # cs) - 1) cs)"
  by pat_completeness auto
termination
  by (relation "measure length") simp_all

text \<open>\<^verbatim>\<open>strings.ReplaceAll(s, "/", "_")\<close>.\<close>

definition replaceSlashes :: "string \<Rightarrow> string" where
  "replaceSlashes s = map (\<lambda>c. if c = CHR ''/'' then CHR ''_'' else c) s"

text \<open>\<^verbatim>\<open>SanitizeFilename\<close>. \<^verbatim>\<open>url.Parse\<close> is the parameter \<open>urlParse\<close>: \<^const>\<open>None\<close>
  when it returns an error, else the \<^verbatim>\<open>Hostname()\<close> and the \<^verbatim>\<open>Path\<close> of the URL.
  \<^verbatim>\<open>filepath.Base\<close> is the parameter \<open>filepathBase\<close>.\<close>

definition SanitizeFilename ::
  "(string \<Rightarrow> (string \<times> string) option) \<Rightarrow> (string \<Rightarrow> string) \<Rightarrow> string \<Rightarrow> string" where
  "SanitizeFilename urlParse filepathBase path =
     (let path1 = (case urlParse path of
                     None \<Rightarrow> filepathBase path
                   | Some (hostname, upath) \<Rightarrow>
                       if hostname \<noteq> [] then hostname @ replaceSlashes upath
                       else filepathBase path);
          sanitized1 = mapRunes path1;
          sanitized2 = (if length sanitized1 > 200 then take 200 sanitized1 else sanitized1);
          sanitized3 = (if length sanitized2 > 0 \<and>
                           (sanitized2 ! 0 = CHR ''.'' \<or> sanitized2 ! 0 = CHR ''_'')
                        then ''file_'' @ sanitized2 else sanitized2)
      in if sanitized3 = [] then ''default_filename'' else sanitized3)"

text \<open>\<^verbatim>\<open>filepath.Ext\<close>: the loop runs from the last byte towards the first, up to a
  path separator.\<close>

fun extLoop :: "string \<Rightarrow> string \<Rightarrow> string" where
  "extLoop [] seen = []"
| "extLoop (c # front) seen =
     (if c = CHR ''/'' then []
      else if c = CHR ''.'' then c # seen
      else extLoop front (c # seen))"

definition Ext :: "string \<Rightarrow> string" where
  "Ext path = extLoop (rev path) []"

text \<open>\<^verbatim>\<open>GetOutputFilePath\<close>; \<^verbatim>\<open>filepath.Join\<close> is the parameter \<open>filepathJoin\<close>.\<close>

definition GetOutputFilePath ::
  "(string \<Rightarrow> string \<Rightarrow> string) \<Rightarrow> (string \<Rightarrow> (string \<times> string) option) \<Rightarrow> (string \<Rightarrow> string) \<Rightarrow>
   string \<Rightarrow> string \<Rightarrow> string" where
  "GetOutputFilePath filepathJoin urlParse filepathBase outputDir sourceIdentifier =
     (let sanitized = SanitizeFilename urlParse filepathBase sourceIdentifier
      in filepathJoin outputDir (if Ext sanitized = [] then sanitized @ ''.txt'' else sanitized))"

text \<open>The characters that \<^verbatim>\<open>SanitizeFilename\<close> lets through.\<close>

definition allowedChar :: "char \<Rightarrow> bool" where
  "allowedChar c =
     ((CHR ''a'' \<le> c \<and> c \<le> CHR ''z'') \<or> (CHR ''A'' \<le> c \<and> c \<le> CHR ''Z'') \<or>
      (CHR ''0'' \<le> c \<and> c \<le> CHR ''9'') \<or> c = CHR ''_'' \<or> c = CHR ''-'' \<or> c = CHR ''.'')"

section \<open>internal/config, internal/httpclient and the scanners\<close>

text \<open>Go's \<^verbatim>\<open>int\<close> on a 64-bit platform: \<^term>\<open>sint\<close> reads it, and the arithmetic wraps.\<close>

type_synonym goInt = "64 word"

record ScanOptions =
  Proxy :: string
  Header :: string
  Method :: string
  Data :: string
  Cookie :: string
  Referer :: string
  UserAgent :: string
  Auth :: string
  Timeout :: goInt

record AppConfig =
  Mode :: string
  ConfigFile :: string
  OutputDir :: string
  ThreadNum :: goInt
  LocalDir :: string
  URLListFile :: string
  SingleURL :: string
  Verbose :: bool
  Quiet :: bool
  Help :: bool
  Options :: ScanOptions
  MaxWorkers :: goInt

text \<open>What \<^verbatim>\<open>config.ParseFlags\<close> does with the command line: it returns an error, or
  prints the help and exits with status 0, or returns a configuration.\<close>

datatype flagsOutcome = FlagsError | HelpShown | Flags AppConfig

text \<open>What \<^verbatim>\<open>filepath.Walk\<close> passes to its callback, entry by entry.\<close>

datatype walkEntry = WalkError string | Directory string | RegularFile string

record Response =
  StatusCode :: int
  Body :: string
  BodyReadFails :: bool

text \<open>
  A pool of workers. A worker that has taken a target from the queue holds it
  (\<open>Taken\<close>) until it has read and matched the content, then it holds the results
  (\<open>Ready\<close>) until it has written them. The scheduler decides, step by step, whether the
  next target is taken from the queue, or which of the workers at work does its reading,
  or which does its writing.
\<close>

datatype slot = Taken string | Ready string "ScanResult list"

datatype choice = StartNext | ReadSlot nat | WriteSlot nat

text \<open>
  The surroundings of a run. Everything the program takes from the standard library or
  from the outside world is a field: the operating system's refusals, the command line
  as \<^verbatim>\<open>ParseFlags\<close> sees it, \<^verbatim>\<open>encoding/json\<close>, \<^verbatim>\<open>regexp\<close>, the Go scheduler (per
  source, for the concurrent matcher), \<^verbatim>\<open>net/url\<close>, \<^verbatim>\<open>path/filepath\<close>, \<^verbatim>\<open>os.Stat\<close>
  with \<^verbatim>\<open>os.IsNotExist\<close>, the directory walk, the eligibility test \<^verbatim>\<open>shouldScanFile\<close>
  (it opens and sniffs the file; no claim depends on what it answers),
  \<^verbatim>\<open>strings.TrimSpace\<close>, \<^verbatim>\<open>bufio.Scanner\<close> over the bytes of a file (\<^const>\<open>None\<close> when
  \<^verbatim>\<open>scanner.Err()\<close> is not \<^verbatim>\<open>nil\<close>), \<^verbatim>\<open>http.NewRequest\<close> and \<^verbatim>\<open>client.Do\<close> (\<^const>\<open>Inl\<close>
  carries the text of the error).

  Three fields belong to the Go runtime. \<open>chanLimit\<close> is the number of bytes beyond
  which \<^verbatim>\<open>make\<close> refuses the buffer of a channel (\<^verbatim>\<open>maxAlloc - hchanSize\<close>, that is
  \<open>2 ^ 48 - 96\<close> on 64-bit Linux). \<open>exhausted n\<close> tells whether the process runs out of
  memory, and is ended by the runtime, while it allocates the queue of a pool of \<open>n\<close>
  workers and starts them. \<open>poolSchedule\<close> is the scheduler's part in a pool of
  workers, explained with \<open>runPool\<close> below.
\<close>

record 'r env =
  osOf :: os
  parseFlags :: flagsOutcome
  jsonDecode :: "string \<Rightarrow> (string, string) gomap option"
  regexpCompile :: "string \<Rightarrow> 'r option"
  regexpFindAll :: "'r \<Rightarrow> string \<Rightarrow> string list"
  goSchedule :: "string \<Rightarrow> nat list"
  netUrlParse :: "string \<Rightarrow> (string \<times> string) option"
  pathBase :: "string \<Rightarrow> string"
  pathJoin :: "string \<Rightarrow> string \<Rightarrow> string"
  statNotExist :: "string \<Rightarrow> bool"
  walkDir :: "string \<Rightarrow> walkEntry list"
  shouldScanFile :: "string \<Rightarrow> bool"
  trimSpace :: "string \<Rightarrow> string"
  scanLines :: "string \<Rightarrow> string list option"
  newRequestFails :: "string \<Rightarrow> string \<Rightarrow> bool"
  clientDo :: "string \<Rightarrow> string + Response"
  chanLimit :: nat
  exhausted :: "nat \<Rightarrow> bool"
  poolSchedule :: "choice list"

text \<open>Go's \<^verbatim>\<open>error\<close> result of a scanner, or the end of the process by the Go runtime
  (a panic, or a deadlock of all goroutines: exit status 2).\<close>

datatype scanOutcome = ScanReturned "error option" | ScanFatal

text \<open>\<^verbatim>\<open>os.ReadFile\<close> (\<^const>\<open>None\<close>: an error) and \<^verbatim>\<open>config.ReadConfigFile\<close>.\<close>

definition ReadFile :: "os \<Rightarrow> string \<Rightarrow> fs \<Rightarrow> string option" where
  "ReadFile sys name files = (if readFails sys name then None else files name)"

definition ReadConfigFile :: "os \<Rightarrow> string \<Rightarrow> fs \<Rightarrow> string option" where
  "ReadConfigFile sys configPath files = ReadFile sys configPath files"

text \<open>
  The end of \<^verbatim>\<open>processLocalFile\<close> and of \<^verbatim>\<open>processURL\<close>: the results, if there are
  any, are written to the output file of the source. A failure of the write is printed
  and nothing else.
\<close>

definition writeResults :: "'r env \<Rightarrow> AppConfig \<Rightarrow> string \<Rightarrow> ScanResult list \<Rightarrow> fs \<Rightarrow> fs" where
  "writeResults env cfg sourceIdentifier results files =
     (if length results > 0
      then (let outputFilePath =
                  GetOutputFilePath (pathJoin env) (netUrlParse env) (pathBase env)
                    (OutputDir cfg) sourceIdentifier
            in snd (WriteResultsToFile (osOf env) outputFilePath results files))
      else files)"

text \<open>
  \<^verbatim>\<open>processLocalFile\<close> up to the write: the results it has found when it reaches the
  write. There are none when the file cannot be read or is empty, where the function
  returns early.
\<close>

definition localFileResults ::
  "'r env \<Rightarrow> string \<Rightarrow> 'r CompiledRules \<Rightarrow> fs \<Rightarrow> ScanResult list" where
  "localFileResults env filePath compiledRules files =
     (case ReadFile (osOf env) filePath files of
        None \<Rightarrow> []
      | Some content \<Rightarrow>
          if length content = 0 then []
          else processContent (regexpFindAll env) (goSchedule env filePath)
                 filePath content compiledRules True)"

text \<open>\<^verbatim>\<open>processLocalFile\<close>, run with no other worker at work. It has no result: an
  error is printed and the function returns. The model returns the file system
  afterwards.\<close>

definition processLocalFile ::
  "'r env \<Rightarrow> string \<Rightarrow> AppConfig \<Rightarrow> 'r CompiledRules \<Rightarrow> fs \<Rightarrow> fs" where
  "processLocalFile env filePath cfg compiledRules files =
     writeResults env cfg filePath (localFileResults env filePath compiledRules files) files"

text \<open>The callback of \<^verbatim>\<open>filepath.Walk\<close> in \<^verbatim>\<open>ScanLocalDirectory\<close>: the paths it sends to
  \<^verbatim>\<open>fileQueue\<close>, in order.\<close>

fun walkLoop :: "(string \<Rightarrow> bool) \<Rightarrow> walkEntry list \<Rightarrow> string list \<Rightarrow> string list" where
  "walkLoop eligible [] queue = queue"
| "walkLoop eligible (WalkError p # rest) queue = walkLoop eligible rest queue"
| "walkLoop eligible (Directory p # rest) queue = walkLoop eligible rest queue"
| "walkLoop eligible (RegularFile p # rest) queue =
     walkLoop eligible rest (if eligible p then queue @ [p] else queue)"

text \<open>
  The runtime's \<^verbatim>\<open>makechan\<close>: \<^verbatim>\<open>make(chan T, n)\<close> panics when \<open>n\<close> is negative, or
  when the buffer (\<open>elemSize\<close> bytes per element, computed on \<^verbatim>\<open>uintptr\<close>) overflows or
  is larger than the limit. The element of \<^verbatim>\<open>chan struct{}\<close> has size 0, the element of
  \<^verbatim>\<open>chan string\<close> size 16.
\<close>

definition makechanPanics :: "nat \<Rightarrow> nat \<Rightarrow> goInt \<Rightarrow> bool" where
  "makechanPanics limit elemSize capacity =
     (let overflow = (2 ^ 64 \<le> elemSize * unat capacity);
          mem = (elemSize * unat capacity) mod 2 ^ 64
      in overflow \<or> limit < mem \<or> sint capacity < 0)"

text \<open>
  The pool. \<open>scan target files\<close> is what a worker finds when it reads and matches its
  target in the file system as it is at that moment; \<open>store target results files\<close> is
  the file system after its write. At most \<open>width\<close> workers are at work. The state is the
  file system and the targets whose handling is over, in the order in which it ended.
  A step of the schedule that does not apply is skipped, and when the schedule ends the
  workers at work finish one after the other, then the rest of the queue is handled
  target by target: every run of the pool is the run of some schedule, and every
  schedule is a run of the pool.
\<close>

fun finishSlot ::
  "(string \<Rightarrow> fs \<Rightarrow> ScanResult list) \<Rightarrow> (string \<Rightarrow> ScanResult list \<Rightarrow> fs \<Rightarrow> fs) \<Rightarrow>
   slot \<Rightarrow> fs \<times> string list \<Rightarrow> fs \<times> string list" where
  "finishSlot scan store (Taken target) (files, handled) =
     (store target (scan target files) files, handled @ [target])"
| "finishSlot scan store (Ready target results) (files, handled) =
     (store target results files, handled @ [target])"

definition drainPool ::
  "(string \<Rightarrow> fs \<Rightarrow> ScanResult list) \<Rightarrow> (string \<Rightarrow> ScanResult list \<Rightarrow> fs \<Rightarrow> fs) \<Rightarrow>
   string list \<Rightarrow> slot list \<Rightarrow> fs \<times> string list \<Rightarrow> fs \<times> string list" where
  "drainPool scan store queue slots state =
     fold (\<lambda>target. finishSlot scan store (Taken target)) queue
       (fold (finishSlot scan store) slots state)"

fun runPool ::
  "(string \<Rightarrow> fs \<Rightarrow> ScanResult list) \<Rightarrow> (string \<Rightarrow> ScanResult list \<Rightarrow> fs \<Rightarrow> fs) \<Rightarrow>
   nat \<Rightarrow> choice list \<Rightarrow> string list \<Rightarrow> slot list \<Rightarrow> fs \<times> string list \<Rightarrow> fs \<times> string list" where
  "runPool scan store width [] queue slots state = drainPool scan store queue slots state"
| "runPool scan store width (StartNext # sched) queue slots state =
     (case queue of
        [] \<Rightarrow> runPool scan store width sched queue slots state
      | target # rest \<Rightarrow>
          if length slots < width
          then runPool scan store width sched rest (slots @ [Taken target]) state
          else runPool scan store width sched queue slots state)"
| "runPool scan store width (ReadSlot i # sched) queue slots (files, handled) =
     (if i < length slots
      then (case slots ! i of
              Taken target \<Rightarrow>
                runPool scan store width sched queue
                  (slots[i := Ready target (scan target files)]) (files, handled)
            | Ready target results \<Rightarrow>
                runPool scan store width sched queue slots (files, handled))
      else runPool scan store width sched queue slots (files, handled))"
| "runPool scan store width (WriteSlot i # sched) queue slots (files, handled) =
     (if i < length slots
      then (case slots ! i of
              Taken target \<Rightarrow>
                runPool scan store width sched queue slots (files, handled)
            | Ready target results \<Rightarrow>
                runPool scan store width sched queue (take i slots @ drop (Suc i) slots)
                  (store target results files, handled @ [target]))
      else runPool scan store width sched queue slots (files, handled))"

text \<open>
  \<^verbatim>\<open>ScanLocalDirectory\<close>. The two \<^verbatim>\<open>make\<close> calls come first: the semaphore
  \<^verbatim>\<open>make(chan struct{}, cfg.ThreadNum)\<close> and the queue
  \<^verbatim>\<open>make(chan string, cfg.ThreadNum*2)\<close>, whose size wraps around. With \<^verbatim>\<open>ThreadNum\<close> 0
  no worker is started and \<^verbatim>\<open>wg.Wait()\<close> returns at once. Otherwise \<^verbatim>\<open>ThreadNum\<close>
  workers take the paths from the queue, in its order, and each runs
  \<^verbatim>\<open>processLocalFile\<close> on its path, concurrently with the others; the write of a worker
  is atomic, under the global mutex.
\<close>

definition ScanLocalDirectory ::
  "'r env \<Rightarrow> AppConfig \<Rightarrow> 'r CompiledRules \<Rightarrow> fs \<Rightarrow> scanOutcome \<times> fs" where
  "ScanLocalDirectory env cfg compiledRules files =
     (if statNotExist env (LocalDir cfg)
      then (ScanReturned (Some (DirNotExistError (LocalDir cfg))), files)
      else if makechanPanics (chanLimit env) 0 (ThreadNum cfg) then (ScanFatal, files)
      else if makechanPanics (chanLimit env) 16 (ThreadNum cfg * 2) then (ScanFatal, files)
      else if ThreadNum cfg = 0 then (ScanReturned None, files)
      else if exhausted env (unat (ThreadNum cfg)) then (ScanFatal, files)
      else (ScanReturned None,
            fst (runPool (\<lambda>filePath. localFileResults env filePath compiledRules)
                   (writeResults env cfg) (unat (ThreadNum cfg)) (poolSchedule env)
                   (walkLoop (shouldScanFile env) (walkDir env (LocalDir cfg)) []) []
                   (files, []))))"

text \<open>\<^verbatim>\<open>httpclient.CreateHTTPClient\<close>: the error it returns, if any.\<close>

definition CreateHTTPClient :: "(string \<Rightarrow> (string \<times> string) option) \<Rightarrow> ScanOptions \<Rightarrow> error option" where
  "CreateHTTPClient urlParse opts =
     (if Proxy opts \<noteq> [] \<and> urlParse (Proxy opts) = None then Some CreateClientError else None)"

text \<open>\<^verbatim>\<open>readURLsFromFile\<close>: \<^const>\<open>None\<close> when it returns an error.\<close>

definition readURLsFromFile :: "'r env \<Rightarrow> string \<Rightarrow> fs \<Rightarrow> string list option" where
  "readURLsFromFile env filePath files =
     (case ReadFile (osOf env) filePath files of
        None \<Rightarrow> None
      | Some bytes \<Rightarrow>
          (case scanLines env bytes of
             None \<Rightarrow> None
           | Some textLines \<Rightarrow> Some (filter (\<lambda>url. url \<noteq> []) (map (trimSpace env) textLines))))"

text \<open>\<^verbatim>\<open>client.Do\<close> in \<^verbatim>\<open>processURL\<close>, with the single retry over plain HTTP.\<close>

definition doRequest :: "'r env \<Rightarrow> string \<Rightarrow> Response option" where
  "doRequest env targetURL =
     (case clientDo env targetURL of
        Inr resp \<Rightarrow> Some resp
      | Inl err \<Rightarrow>
          if prefix ''https://'' targetURL \<and>
             Contains err ''http: server gave HTTP response to HTTPS client''
          then (case clientDo env (''http://'' @ drop (length ''https://'') targetURL) of
                  Inr resp \<Rightarrow> Some resp
                | Inl err' \<Rightarrow> None)
          else None)"

text \<open>
  \<^verbatim>\<open>processURL\<close> up to the write: the results it has found when it reaches the write.
  There are none where the function returns early: the request cannot be built or
  fails, the status is outside 2xx, the body cannot be read or is empty.
\<close>

definition urlResults ::
  "'r env \<Rightarrow> string \<Rightarrow> AppConfig \<Rightarrow> 'r CompiledRules \<Rightarrow> ScanResult list" where
  "urlResults env originalURL cfg compiledRules =
     (let targetURL = (if \<not> prefix ''http://'' originalURL \<and> \<not> prefix ''https://'' originalURL
                       then ''https://'' @ originalURL else originalURL)
      in if newRequestFails env (Method (Options cfg)) targetURL then []
         else (case doRequest env targetURL of
                 None \<Rightarrow> []
               | Some resp \<Rightarrow>
                   if StatusCode resp < 200 \<or> StatusCode resp \<ge> 300 then []
                   else if BodyReadFails resp then []
                   else (let bodyBytes = take (10 * 1024 * 1024) (Body resp)
                         in if length bodyBytes = 0 then []
                            else processContent (regexpFindAll env) (goSchedule env originalURL)
                                   originalURL bodyBytes compiledRules False)))"

text \<open>\<^verbatim>\<open>processURL\<close>, run with no other goroutine at work. Like \<^verbatim>\<open>processLocalFile\<close>
  it has no result.\<close>

definition processURL ::
  "'r env \<Rightarrow> string \<Rightarrow> AppConfig \<Rightarrow> 'r CompiledRules \<Rightarrow> fs \<Rightarrow> fs" where
  "processURL env originalURL cfg compiledRules files =
     writeResults env cfg originalURL (urlResults env originalURL cfg compiledRules) files"

text \<open>
  The loop of \<^verbatim>\<open>ScanURLs\<close> over the URLs, after
  \<^verbatim>\<open>make(chan struct{}, cfg.ThreadNum)\<close>. An empty URL is skipped. Every other URL is
  handled by a goroutine of its own, started once a slot of the semaphore is free, so
  that at most \<^verbatim>\<open>ThreadNum\<close> of them are at work: a pool again, in the order of the list.
  A semaphore of capacity 0 never has a free slot: the send for the first URL blocks
  for ever, and the runtime ends the process.
\<close>

definition dispatchURLs ::
  "'r env \<Rightarrow> AppConfig \<Rightarrow> 'r CompiledRules \<Rightarrow> string list \<Rightarrow> fs \<Rightarrow> scanOutcome \<times> fs" where
  "dispatchURLs env cfg compiledRules urlsToScan files =
     (if makechanPanics (chanLimit env) 0 (ThreadNum cfg) then (ScanFatal, files)
      else (let targets = filter (\<lambda>u. u \<noteq> []) urlsToScan
            in if targets = [] then (ScanReturned None, files)
               else if ThreadNum cfg = 0 then (ScanFatal, files)
               else (ScanReturned None,
                     fst (runPool (\<lambda>u files'. urlResults env u cfg compiledRules)
                            (writeResults env cfg) (unat (ThreadNum cfg)) (poolSchedule env)
                            targets [] (files, [])))))"

definition ScanURLs ::
  "'r env \<Rightarrow> AppConfig \<Rightarrow> 'r CompiledRules \<Rightarrow> fs \<Rightarrow> scanOutcome \<times> fs" where
  "ScanURLs env cfg compiledRules files =
     (case CreateHTTPClient (netUrlParse env) (Options cfg) of
        Some err \<Rightarrow> (ScanReturned (Some err), files)
      | None \<Rightarrow>
          if SingleURL cfg \<noteq> []
          then dispatchURLs env (cfg\<lparr>ThreadNum := 1\<rparr>) compiledRules
                 [trimSpace env (SingleURL cfg)] files
          else if URLListFile cfg \<noteq> []
          then (case readURLsFromFile env (URLListFile cfg) files of
                  None \<Rightarrow> (ScanReturned (Some (ReadURLFileError (URLListFile cfg))), files)
                | Some fileURLs \<Rightarrow>
                    if length fileURLs = 0 then (ScanReturned None, files)
                    else dispatchURLs env cfg compiledRules fileURLs files)
          else (ScanReturned (Some MissingURLSourceError), files))"

section \<open>main\<close>

text \<open>\<^verbatim>\<open>main\<close>: the exit status of the process and the file system it leaves.\<close>

definition exitStatus :: "scanOutcome \<Rightarrow> nat" where
  "exitStatus outcome =
     (case outcome of
        ScanFatal \<Rightarrow> 2
      | ScanReturned scanErr \<Rightarrow> if scanErr \<noteq> None then 1 else 0)"

definition main :: "'r env \<Rightarrow> fs \<Rightarrow> nat \<times> fs" where
  "main env files =
     (case parseFlags env of
        FlagsError \<Rightarrow> (1, files)
      | HelpShown \<Rightarrow> (0, files)
      | Flags cfg \<Rightarrow>
          (case ReadConfigFile (osOf env) (ConfigFile cfg) files of
             None \<Rightarrow> (1, files)
           | Some ruleJsonStr \<Rightarrow>
               (case CompileRules (jsonDecode env) (regexpCompile env) ruleJsonStr of
                  Inl err \<Rightarrow> (1, files)
                | Inr (compiledRules, out) \<Rightarrow>
                    if length (Regex compiledRules) = 0 \<and> length (Literal compiledRules) = 0
                    then (1, files)
                    else if Mode cfg = ''localScan''
                    then (case ScanLocalDirectory env cfg compiledRules files of
                            (outcome, files') \<Rightarrow> (exitStatus outcome, files'))
                    else if Mode cfg = ''urlScan''
                    then (case ScanURLs env cfg compiledRules files of
                            (outcome, files') \<Rightarrow> (exitStatus outcome, files'))
                    else (1, files))))"

text \<open>Two runs to look at, over a directory of two files that hold a secret, with four
  workers and any schedule: in the first the operating system refuses to read one of
  the files, in the second it refuses to open any result file.\<close>

definition demoConfig :: AppConfig where
  "demoConfig =
     \<lparr>Mode = ''localScan'', ConfigFile = ''config.json'', OutputDir = ''results'',
      ThreadNum = 4, LocalDir = ''src'', URLListFile = [], SingleURL = [],
      Verbose = False, Quiet = False, Help = False,
      Options = \<lparr>Proxy = [], Header = [], Method = ''GET'', Data = [], Cookie = [],
                  Referer = [], UserAgent = [], Auth = [], Timeout = 10\<rparr>,
      MaxWorkers = 8\<rparr>"

definition demoReadError :: os where
  "demoReadError =
     \<lparr>openFails = (\<lambda>p. False), readFails = (\<lambda>p. p = ''src/a.js''),
      accepted = (\<lambda>p d. length d)\<rparr>"

definition demoWriteError :: os where
  "demoWriteError =
     \<lparr>openFails = (\<lambda>p. True), readFails = (\<lambda>p. False), accepted = (\<lambda>p d. length d)\<rparr>"

definition demoEnv :: "os \<Rightarrow> choice list \<Rightarrow> string env" where
  "demoEnv sys sched =
     \<lparr>osOf = sys,
      parseFlags = Flags demoConfig,
      jsonDecode = (\<lambda>s. Some [(''secret'', ''hunter2'')]),
      regexpCompile = (\<lambda>p. Some p),
      regexpFindAll = (\<lambda>reg content. []),
      goSchedule = (\<lambda>source. []),
      netUrlParse = (\<lambda>s. None),
      pathBase = (\<lambda>p. rev (takeWhile (\<lambda>c. c \<noteq> CHR ''/'') (rev p))),
      pathJoin = (\<lambda>dir name. dir @ ''/'' @ name),
      statNotExist = (\<lambda>p. False),
      walkDir = (\<lambda>dir. [Directory ''src'', RegularFile ''src/a.js'', RegularFile ''src/b.js'']),
      shouldScanFile = (\<lambda>p. True),
      trimSpace = (\<lambda>s. s),
      scanLines = (\<lambda>bytes. Some []),
      newRequestFails = (\<lambda>m u. False),
      clientDo = (\<lambda>u. Inl ''no network''),
      chanLimit = 2 ^ 48 - 96,
      exhausted = (\<lambda>n. False),
      poolSchedule = sched\<rparr>"

definition demoFiles :: fs where
  "demoFiles = [''config.json'' \<mapsto> ''{\"secret\":\"hunter2\"}'',
                ''src/a.js'' \<mapsto> ''token=hunter2'',
                ''src/b.js'' \<mapsto> ''token=hunter2'']"

section \<open>Loops as list comprehensions\<close>

lemma literalLoop_eq:
  "literalLoop source content rules results =
     results @ concat (map (\<lambda>(ruleName, pattern).
        if Contains content pattern
        then [\<lparr>Source = source, Rule = ruleName, Match = pattern\<rparr>] else []) rules)"
  by (induction rules arbitrary: results) auto

lemma matchLoop_eq:
  "matchLoop source name matches results = results @ goroutineSends source name matches"
  by (induction matches arbitrary: results) auto

lemma serialLoop_eq:
  "serialLoop findAll source content rules results =
     results @ concat (map (\<lambda>(ruleName, reg).
        goroutineSends source ruleName (findAll reg content)) rules)"
  by (induction rules arbitrary: results) (auto simp: matchLoop_eq)

lemma goroutineSends_eq:
  "goroutineSends source name matches =
     map (\<lambda>m. \<lparr>Source = source, Rule = name, Match = m\<rparr>)
       (filter (\<lambda>m. 0 < length m \<and> length m < 1024) matches)"
  by (induction matches) auto

lemma serial_eq:
  "processRegexRulesSerially findAll source content rules =
     concat (map (\<lambda>(n, reg). map (\<lambda>m. \<lparr>Source = source, Rule = n, Match = m\<rparr>)
                   (filter (\<lambda>m. 0 < length m \<and> length m < 1024) (findAll reg content))) rules)"
  by (simp add: processRegexRulesSerially_def serialLoop_eq goroutineSends_eq)

section \<open>The channel delivers every value exactly once\<close>

lemma mset_concat_update:
  assumes "i < length xss" "xss ! i = x # xs"
  shows "mset (concat xss) = add_mset x (mset (concat (xss[i := xs])))"
proof -
  have "xss = take i xss @ (x # xs) # drop (Suc i) xss"
    using assms by (metis id_take_nth_drop)
  moreover have "xss[i := xs] = take i xss @ xs # drop (Suc i) xss"
    using assms by (simp add: upd_conv_take_nth_drop)
  ultimately show ?thesis
    by (metis concat.simps(2) concat_append mset.simps(2) union_mset_add_mset_right
        append_Cons mset_append)
qed

lemma mset_receiveAll: "mset (receiveAll sched pending) = mset (concat pending)"
proof (induction sched arbitrary: pending)
  case Nil
  show ?case by simp
next
  case (Cons i sched)
  show ?case
  proof (cases "i < length pending")
    case False
    then show ?thesis using Cons.IH by simp
  next
    case True
    show ?thesis
    proof (cases "pending ! i")
      case Nil
      then show ?thesis using True Cons.IH by simp
    next
      case (Cons x xs)
      then show ?thesis
        using True Cons.IH [of "pending[i := xs]"] mset_concat_update [OF True Cons]
        by simp
    qed
  qed
qed

lemma mset_concat_map: "mset (concat (map f xs)) = (\<Sum>x\<in>#mset xs. mset (f x))"
  by (induction xs) auto

lemma mset_concurrent_serial:
  "mset (processRegexRulesConcurrently findAll sched source content rules) =
   mset (processRegexRulesSerially findAll source content rules)"
  unfolding processRegexRulesConcurrently_def processRegexRulesSerially_def
  by (simp add: mset_receiveAll serialLoop_eq mset_concat_map)

lemma set_goroutineSends:
  "set (goroutineSends source name matches) =
     {\<lparr>Source = source, Rule = name, Match = m\<rparr> | m.
        m \<in> set matches \<and> 0 < length m \<and> length m < 1024}"
  by (auto simp: goroutineSends_eq)

lemma set_serial:
  "set (processRegexRulesSerially findAll source content rules) =
     {\<lparr>Source = source, Rule = n, Match = m\<rparr> | n reg m.
        (n, reg) \<in> set rules \<and> m \<in> set (findAll reg content) \<and>
        0 < length m \<and> length m < 1024}"
  unfolding processRegexRulesSerially_def serialLoop_eq
  by (auto simp: set_goroutineSends)

lemma set_concurrent:
  "set (processRegexRulesConcurrently findAll sched source content rules) =
     {\<lparr>Source = source, Rule = n, Match = m\<rparr> | n reg m.
        (n, reg) \<in> set rules \<and> m \<in> set (findAll reg content) \<and>
        0 < length m \<and> length m < 1024}"
proof -
  have "set (processRegexRulesConcurrently findAll sched source content rules) =
        set (processRegexRulesSerially findAll source content rules)"
    using mset_concurrent_serial [of findAll sched source content rules]
    by (metis set_mset_mset)
  then show ?thesis by (simp only: set_serial)
qed

text \<open>The scheduler does change the order: the model is not the serial loop in disguise.\<close>

lemma concurrent_order_differs:
  "processRegexRulesConcurrently (\<lambda>reg content. [reg, [], content]) [1, 0, 0]
     ''src'' ''xyz'' [(''a'', ''p''), (''b'', ''q'')] \<noteq>
   processRegexRulesSerially (\<lambda>reg content. [reg, [], content])
     ''src'' ''xyz'' [(''a'', ''p''), (''b'', ''q'')]"
  by (simp add: processRegexRulesConcurrently_def processRegexRulesSerially_def)

section \<open>Serial and concurrent evaluation\<close>

text \<open>
  Claim C1. For every source identifier, content and set of pattern rules, the serial
  strategy and the parallel strategy return the same multiset of results, whatever the
  scheduler does and in whatever order each of the two visits the entries of the rule
  map (\<open>rules'\<close> and \<open>rules\<close> hold the same entries): the strategy changes the order at
  most.
\<close>

theorem C1_serial_concurrent_same_multiset:
  "mset rules' = mset rules \<Longrightarrow>
   mset (processRegexRulesConcurrently findAll sched source content rules') =
   mset (processRegexRulesSerially findAll source content rules)"
  unfolding processRegexRulesConcurrently_def processRegexRulesSerially_def
  by (simp add: mset_receiveAll serialLoop_eq mset_concat_map)

theorem C1_witness:
  "mset (processRegexRulesConcurrently (\<lambda>reg content. [reg, [], content]) [1, 0, 0]
           ''src'' ''xyz'' [(''b'', ''q''), (''a'', ''p'')]) =
   mset (processRegexRulesSerially (\<lambda>reg content. [reg, [], content])
           ''src'' ''xyz'' [(''a'', ''p''), (''b'', ''q'')])"
  by (rule C1_serial_concurrent_same_multiset) simp

section \<open>Literal rules\<close>

lemma filter_rule_absent:
  "name \<notin> fst ` set rules \<Longrightarrow>
   filter (\<lambda>r. Rule r = name) (concat (map (\<lambda>(ruleName, pattern).
        if Contains content pattern
        then [\<lparr>Source = source, Rule = ruleName, Match = pattern\<rparr>] else []) rules)) = []"
  by (induction rules) auto

lemma filter_rule_present:
  "distinct (map fst rules) \<Longrightarrow> (name, pattern) \<in> set rules \<Longrightarrow>
   filter (\<lambda>r. Rule r = name) (concat (map (\<lambda>(ruleName, pattern).
        if Contains content pattern
        then [\<lparr>Source = source, Rule = ruleName, Match = pattern\<rparr>] else []) rules)) =
   (if Contains content pattern
    then [\<lparr>Source = source, Rule = name, Match = pattern\<rparr>] else [])"
proof (induction rules)
  case Nil
  then show ?case by simp
next
  case (Cons a rules)
  obtain n p where a: "a = (n, p)" by (cases a)
  show ?case
  proof (cases "n = name")
    case True
    with Cons.prems a have "p = pattern" "name \<notin> fst ` set rules"
      by (auto simp: rev_image_eqI)
    then show ?thesis using a True filter_rule_absent [of name rules content source]
      by simp
  next
    case False
    with Cons a show ?thesis by auto
  qed
qed

text \<open>
  Claim C5. For every literal rule of the rule set (a Go map: its keys are distinct), if
  the pattern occurs in the content as a contiguous byte sequence, the literal phase
  emits exactly one result for that rule, and its match text is the pattern; if the
  pattern does not occur, it emits no result for that rule.
\<close>

theorem C5_literal_rule_one_result_iff_substring:
  assumes "distinct (map fst literalRules)" and "(name, pattern) \<in> set literalRules"
  shows "filter (\<lambda>r. Rule r = name) (processLiteralRules source content literalRules) =
           (if \<exists>ps ss. content = ps @ pattern @ ss
            then [\<lparr>Source = source, Rule = name, Match = pattern\<rparr>] else [])"
  using filter_rule_present [OF assms, of content source]
  by (simp add: processLiteralRules_def literalLoop_eq Contains_def sublist_def)

theorem C5_witness:
  "filter (\<lambda>r. Rule r = ''secret'')
     (processLiteralRules ''a.js'' ''token=hunter2 hunter2''
        [(''k'', ''AKIA''), (''secret'', ''hunter2'')]) =
   [\<lparr>Source = ''a.js'', Rule = ''secret'', Match = ''hunter2''\<rparr>] \<and>
   filter (\<lambda>r. Rule r = ''k'')
     (processLiteralRules ''a.js'' ''token=hunter2 hunter2''
        [(''k'', ''AKIA''), (''secret'', ''hunter2'')]) = []"
proof -
  have d: "distinct (map fst [(''k'', ''AKIA''), (''secret'', ''hunter2'')])" by simp
  have 1: "\<exists>ps ss. ''token=hunter2 hunter2'' = ps @ ''hunter2'' @ ss"
    by (rule exI [of _ "''token=''"], rule exI [of _ "'' hunter2''"]) simp
  have 2: "\<not> (\<exists>ps ss. ''token=hunter2 hunter2'' = ps @ ''AKIA'' @ ss)"
    using sublist_def [of "''AKIA''" "''token=hunter2 hunter2''"] by (simp add: sublist_Cons_right)
  show ?thesis
    using C5_literal_rule_one_result_iff_substring [OF d, where name = "''secret''"
            and pattern = "''hunter2''" and content = "''token=hunter2 hunter2''"
            and source = "''a.js''"]
          C5_literal_rule_one_result_iff_substring [OF d, where name = "''k''"
            and pattern = "''AKIA''" and content = "''token=hunter2 hunter2''"
            and source = "''a.js''"] 1 2
    by simp
qed

section \<open>The length filter on pattern matches\<close>

text \<open>
  Claim C6. Under the serial and under the parallel strategy, the results are exactly
  the matches of the pattern rules whose length is strictly between 0 and 1024; a match
  of length 0, or of length 1024 or more, is in neither result.
\<close>

theorem C6_match_length_filter:
  "processRegexRulesSerially findAll source content rules =
     concat (map (\<lambda>(n, reg). map (\<lambda>m. \<lparr>Source = source, Rule = n, Match = m\<rparr>)
                   (filter (\<lambda>m. 0 < length m \<and> length m < 1024) (findAll reg content))) rules) \<and>
   mset (processRegexRulesConcurrently findAll sched source content rules) =
     mset (concat (map (\<lambda>(n, reg). map (\<lambda>m. \<lparr>Source = source, Rule = n, Match = m\<rparr>)
                   (filter (\<lambda>m. 0 < length m \<and> length m < 1024) (findAll reg content))) rules)) \<and>
   (\<forall>r \<in> set (processRegexRulesSerially findAll source content rules) \<union>
           set (processRegexRulesConcurrently findAll sched source content rules).
      0 < length (Match r) \<and> length (Match r) < 1024)"
proof (intro conjI)
  show "processRegexRulesSerially findAll source content rules =
     concat (map (\<lambda>(n, reg). map (\<lambda>m. \<lparr>Source = source, Rule = n, Match = m\<rparr>)
                   (filter (\<lambda>m. 0 < length m \<and> length m < 1024) (findAll reg content))) rules)"
    by (rule serial_eq)
  then show "mset (processRegexRulesConcurrently findAll sched source content rules) =
     mset (concat (map (\<lambda>(n, reg). map (\<lambda>m. \<lparr>Source = source, Rule = n, Match = m\<rparr>)
                   (filter (\<lambda>m. 0 < length m \<and> length m < 1024) (findAll reg content))) rules))"
    by (simp only: mset_concurrent_serial)
  show "\<forall>r \<in> set (processRegexRulesSerially findAll source content rules) \<union>
           set (processRegexRulesConcurrently findAll sched source content rules).
      0 < length (Match r) \<and> length (Match r) < 1024"
    unfolding set_serial set_concurrent by auto
qed

theorem C6_witness:
  "processRegexRulesSerially
     (\<lambda>reg content. [''ab'', [], replicate 1024 (CHR ''a''), replicate 1023 (CHR ''a'')])
     ''s'' ''c'' [(''r'', ())] =
   [\<lparr>Source = ''s'', Rule = ''r'', Match = ''ab''\<rparr>,
    \<lparr>Source = ''s'', Rule = ''r'', Match = replicate 1023 (CHR ''a'')\<rparr>] \<and>
   mset (processRegexRulesConcurrently
     (\<lambda>reg content. [''ab'', [], replicate 1024 (CHR ''a''), replicate 1023 (CHR ''a'')])
     [0] ''s'' ''c'' [(''r'', ())]) =
   mset [\<lparr>Source = ''s'', Rule = ''r'', Match = ''ab''\<rparr>,
    \<lparr>Source = ''s'', Rule = ''r'', Match = replicate 1023 (CHR ''a'')\<rparr>]"
  using C6_match_length_filter
          [of "\<lambda>reg content. [''ab'', [], replicate 1024 (CHR ''a''), replicate 1023 (CHR ''a'')]"
              "''s''" "''c''" "[(''r'', ())]" "[0]"]
  by simp

section \<open>Strategy selection\<close>

text \<open>
  Claim C7. The content matcher evaluates the pattern rules with the parallel strategy
  if and only if the flag is set, the content is longer than 1048576 bytes (1 MiB) and
  there are more than 5 pattern rules; in every other case it evaluates them serially.
\<close>

theorem C7_parallel_iff_flag_size_count:
  "processContent findAll sched sourceIdentifier content compiledRules useConcurrency =
     processLiteralRules sourceIdentifier content (Literal compiledRules) @
     (if useConcurrency \<and> 1048576 < length content \<and> 5 < length (Regex compiledRules)
      then processRegexRulesConcurrently findAll sched sourceIdentifier content
             (Regex compiledRules)
      else processRegexRulesSerially findAll sourceIdentifier content (Regex compiledRules))"
  by (simp add: processContent_def shouldBeConcurrent_def Let_def)

theorem C7_witness:
  "processContent (\<lambda>reg content. [reg]) [1] ''s'' (replicate 1048577 (CHR ''x''))
     \<lparr>Regex = [(''r1'', ''a''), (''r2'', ''b''), (''r3'', ''c''), (''r4'', ''d''),
                (''r5'', ''e''), (''r6'', ''f'')], Literal = []\<rparr> True =
   processRegexRulesConcurrently (\<lambda>reg content. [reg]) [1] ''s'' (replicate 1048577 (CHR ''x''))
     [(''r1'', ''a''), (''r2'', ''b''), (''r3'', ''c''), (''r4'', ''d''),
      (''r5'', ''e''), (''r6'', ''f'')] \<and>
   processContent (\<lambda>reg content. [reg]) [1] ''s'' (replicate 1048576 (CHR ''x''))
     \<lparr>Regex = [(''r1'', ''a''), (''r2'', ''b''), (''r3'', ''c''), (''r4'', ''d''),
                (''r5'', ''e''), (''r6'', ''f'')], Literal = []\<rparr> True =
   processRegexRulesSerially (\<lambda>reg content. [reg]) ''s'' (replicate 1048576 (CHR ''x''))
     [(''r1'', ''a''), (''r2'', ''b''), (''r3'', ''c''), (''r4'', ''d''),
      (''r5'', ''e''), (''r6'', ''f'')] \<and>
   processContent (\<lambda>reg content. [reg]) [1] ''s'' (replicate 1048577 (CHR ''x''))
     \<lparr>Regex = [(''r1'', ''a''), (''r2'', ''b''), (''r3'', ''c''), (''r4'', ''d''),
                (''r5'', ''e'')], Literal = []\<rparr> True =
   processRegexRulesSerially (\<lambda>reg content. [reg]) ''s'' (replicate 1048577 (CHR ''x''))
     [(''r1'', ''a''), (''r2'', ''b''), (''r3'', ''c''), (''r4'', ''d''), (''r5'', ''e'')] \<and>
   processContent (\<lambda>reg content. [reg]) [1] ''s'' (replicate 1048577 (CHR ''x''))
     \<lparr>Regex = [(''r1'', ''a''), (''r2'', ''b''), (''r3'', ''c''), (''r4'', ''d''),
                (''r5'', ''e''), (''r6'', ''f'')], Literal = []\<rparr> False =
   processRegexRulesSerially (\<lambda>reg content. [reg]) ''s'' (replicate 1048577 (CHR ''x''))
     [(''r1'', ''a''), (''r2'', ''b''), (''r3'', ''c''), (''r4'', ''d''),
      (''r5'', ''e''), (''r6'', ''f'')]"
  by (simp add: C7_parallel_iff_flag_size_count processLiteralRules_def)

section \<open>The rule compiler\<close>

lemma keys_map_of: "name \<in> keys m \<longleftrightarrow> map_of m name \<noteq> None"
  by (simp add: keys_def map_of_eq_None_iff)

lemma compileRule_Literal:
  "map_of (Literal (fst (compileRule compile (n, p) acc))) name =
     (if n = name \<and> p \<noteq> [] \<and> (isLiteralPattern p \<or> compile p = None) then Some p
      else map_of (Literal (fst acc)) name)"
  by (cases acc) (auto simp: update_conv' split: option.splits)

lemma compileRule_Regex:
  "map_of (Regex (fst (compileRule compile (n, p) acc))) name =
     (if n = name \<and> p \<noteq> [] \<and> \<not> isLiteralPattern p \<and> compile p \<noteq> None then compile p
      else map_of (Regex (fst acc)) name)"
  by (cases acc) (auto simp: update_conv' split: option.splits)

lemma fold_compileRule_Literal:
  "distinct (map fst ruleMap) \<Longrightarrow>
   map_of (Literal (fst (fold (compileRule compile) ruleMap acc))) name =
     (case map_of ruleMap name of
        None \<Rightarrow> map_of (Literal (fst acc)) name
      | Some p \<Rightarrow>
          if p \<noteq> [] \<and> (isLiteralPattern p \<or> compile p = None) then Some p
          else map_of (Literal (fst acc)) name)"
proof (induction ruleMap arbitrary: acc)
  case Nil
  then show ?case by simp
next
  case (Cons e ruleMap)
  obtain n p where e: "e = (n, p)" by (cases e)
  from Cons.prems e have n: "map_of ruleMap n = None" and d: "distinct (map fst ruleMap)"
    by (auto simp: map_of_eq_None_iff)
  show ?case
    using Cons.IH [OF d, of "compileRule compile (n, p) acc"] n
    by (simp add: e compileRule_Literal split: option.splits)
qed

lemma fold_compileRule_Regex:
  "distinct (map fst ruleMap) \<Longrightarrow>
   map_of (Regex (fst (fold (compileRule compile) ruleMap acc))) name =
     (case map_of ruleMap name of
        None \<Rightarrow> map_of (Regex (fst acc)) name
      | Some p \<Rightarrow>
          if p \<noteq> [] \<and> \<not> isLiteralPattern p \<and> compile p \<noteq> None then compile p
          else map_of (Regex (fst acc)) name)"
proof (induction ruleMap arbitrary: acc)
  case Nil
  then show ?case by simp
next
  case (Cons e ruleMap)
  obtain n p where e: "e = (n, p)" by (cases e)
  from Cons.prems e have n: "map_of ruleMap n = None" and d: "distinct (map fst ruleMap)"
    by (auto simp: map_of_eq_None_iff)
  show ?case
    using Cons.IH [OF d, of "compileRule compile (n, p) acc"] n
    by (simp add: e compileRule_Regex split: option.splits)
qed

lemma compileLoop_Literal:
  "distinct (map fst ruleMap) \<Longrightarrow> (name, pattern) \<in> set ruleMap \<Longrightarrow>
   map_of (Literal (fst (compileLoop compile ruleMap))) name =
     (if pattern \<noteq> [] \<and> (isLiteralPattern pattern \<or> compile pattern = None)
      then Some pattern else None)"
  by (simp add: compileLoop_def fold_compileRule_Literal)

lemma compileLoop_Regex:
  "distinct (map fst ruleMap) \<Longrightarrow> (name, pattern) \<in> set ruleMap \<Longrightarrow>
   map_of (Regex (fst (compileLoop compile ruleMap))) name =
     (if pattern \<noteq> [] \<and> \<not> isLiteralPattern pattern then compile pattern else None)"
  by (auto simp add: compileLoop_def fold_compileRule_Regex)

lemma distinct_compileRule:
  "distinct (map fst (Literal (fst acc))) \<Longrightarrow> distinct (map fst (Regex (fst acc))) \<Longrightarrow>
   distinct (map fst (Literal (fst (compileRule compile e acc)))) \<and>
   distinct (map fst (Regex (fst (compileRule compile e acc))))"
  by (cases acc; cases e) (auto simp: distinct_update split: option.splits)

lemma distinct_fold_compileRule:
  "distinct (map fst (Literal (fst acc))) \<Longrightarrow> distinct (map fst (Regex (fst acc))) \<Longrightarrow>
   distinct (map fst (Literal (fst (fold (compileRule compile) ruleMap acc)))) \<and>
   distinct (map fst (Regex (fst (fold (compileRule compile) ruleMap acc))))"
proof (induction ruleMap arbitrary: acc)
  case Nil
  then show ?case by simp
next
  case (Cons e ruleMap)
  show ?case
    using Cons.IH [of "compileRule compile e acc"] distinct_compileRule [OF Cons.prems, of compile e]
    by simp
qed

lemma distinct_compileLoop:
  "distinct (map fst (Literal (fst (compileLoop compile ruleMap))))"
  "distinct (map fst (Regex (fst (compileLoop compile ruleMap))))"
  using distinct_fold_compileRule [of "(\<lparr>Regex = [], Literal = []\<rparr>, [])" compile ruleMap]
  by (simp_all add: compileLoop_def)

lemma isLiteralPattern_iff:
  "isLiteralPattern pattern \<longleftrightarrow>
     set pattern \<inter> {CHR ''.'', CHR ''+'', CHR ''*'', CHR ''?'', CHR ''('', CHR '')'', CHR ''|'',
                    CHR ''['', CHR '']'', CHR ''{'', CHR ''}'', CHR ''^'', CHR ''$'', CHR 0x5C} = {}"
proof -
  have "Contains pattern [c] \<longleftrightarrow> c \<in> set pattern" for c
    unfolding Contains_def
    by (induction pattern) (auto simp: sublist_Cons_right)
  then show ?thesis
    by (auto simp: isLiteralPattern_def ContainsAny_def list_ex_iff)
qed

lemma regex_rule_names:
  "r \<in> set (processRegexRulesSerially findAll source content rules) \<Longrightarrow> Rule r \<in> keys rules"
  "r \<in> set (processRegexRulesConcurrently findAll sched source content rules) \<Longrightarrow> Rule r \<in> keys rules"
  unfolding set_serial set_concurrent keys_def by force+

lemma processContent_rule_absent_regex:
  assumes "name \<notin> keys (Regex compiledRules)"
  shows "filter (\<lambda>r. Rule r = name)
           (processContent findAll sched source content compiledRules useConcurrency) =
         filter (\<lambda>r. Rule r = name) (processLiteralRules source content (Literal compiledRules))"
proof -
  have "filter (\<lambda>r. Rule r = name)
          (processRegexRulesSerially findAll source content (Regex compiledRules)) = []"
       "filter (\<lambda>r. Rule r = name)
          (processRegexRulesConcurrently findAll sched source content (Regex compiledRules)) = []"
    using assms regex_rule_names by (fastforce simp: filter_empty_conv)+
  then show ?thesis by (simp add: processContent_def Let_def)
qed

lemma processLiteralRules_rule_absent:
  "name \<notin> keys literalRules \<Longrightarrow>
   filter (\<lambda>r. Rule r = name) (processLiteralRules source content literalRules) = []"
  using filter_rule_absent [of name literalRules content source]
  by (simp add: processLiteralRules_def literalLoop_eq keys_def)

lemma CompileRules_Inr:
  "decode ruleJsonStr = Some ruleMap \<Longrightarrow>
   CompileRules decode compile ruleJsonStr =
     Inr (fst (compileLoop compile ruleMap),
          snd (compileLoop compile ruleMap) @
            [CompileSummary (length (Regex (fst (compileLoop compile ruleMap))))
                            (length (Literal (fst (compileLoop compile ruleMap))))])"
  by (simp add: CompileRules_def JsonToMap_def split: prod.splits)

text \<open>
  Claim C2. A non-empty pattern of the rule map (a Go map: its keys are distinct) is
  classified as literal, and stored in the literal partition under its name, if and only
  if it contains none of the thirteen characters \<^verbatim>\<open>. + * ? ( ) | [ ] { } ^ $\<close> and no
  backslash. Every other non-empty pattern is compiled: when \<^verbatim>\<open>regexp.Compile\<close>
  succeeds the rule is stored in the pattern partition only, and when it fails the rule
  is demoted to the literal partition.
\<close>

theorem C2_literal_iff_no_metacharacter:
  assumes "decode ruleJsonStr = Some ruleMap" and "distinct (map fst ruleMap)"
    and "(name, pattern) \<in> set ruleMap" and "pattern \<noteq> []"
  shows "(isLiteralPattern pattern \<longleftrightarrow>
           set pattern \<inter> {CHR ''.'', CHR ''+'', CHR ''*'', CHR ''?'', CHR ''('', CHR '')'',
             CHR ''|'', CHR ''['', CHR '']'', CHR ''{'', CHR ''}'', CHR ''^'', CHR ''$'',
             CHR 0x5C} = {}) \<and>
         (\<exists>compiled out. CompileRules decode compile ruleJsonStr = Inr (compiled, out) \<and>
            (if set pattern \<inter> {CHR ''.'', CHR ''+'', CHR ''*'', CHR ''?'', CHR ''('', CHR '')'',
                  CHR ''|'', CHR ''['', CHR '']'', CHR ''{'', CHR ''}'', CHR ''^'', CHR ''$'',
                  CHR 0x5C} = {}
             then map_of (Literal compiled) name = Some pattern \<and> name \<notin> keys (Regex compiled)
             else (case compile pattern of
                     Some reg \<Rightarrow>
                       map_of (Regex compiled) name = Some reg \<and> name \<notin> keys (Literal compiled)
                   | None \<Rightarrow>
                       map_of (Literal compiled) name = Some pattern \<and>
                       name \<notin> keys (Regex compiled))))"
proof (intro conjI)
  show "isLiteralPattern pattern \<longleftrightarrow>
           set pattern \<inter> {CHR ''.'', CHR ''+'', CHR ''*'', CHR ''?'', CHR ''('', CHR '')'',
             CHR ''|'', CHR ''['', CHR '']'', CHR ''{'', CHR ''}'', CHR ''^'', CHR ''$'',
             CHR 0x5C} = {}"
    by (rule isLiteralPattern_iff)
  let ?c = "fst (compileLoop compile ruleMap)"
  have L: "map_of (Literal ?c) name =
     (if isLiteralPattern pattern \<or> compile pattern = None then Some pattern else None)"
    using compileLoop_Literal [OF assms(2,3), of compile] assms(4) by simp
  have R: "map_of (Regex ?c) name = (if \<not> isLiteralPattern pattern then compile pattern else None)"
    using compileLoop_Regex [OF assms(2,3), of compile] assms(4) by simp
  have "if isLiteralPattern pattern
        then map_of (Literal ?c) name = Some pattern \<and> name \<notin> keys (Regex ?c)
        else (case compile pattern of
                Some reg \<Rightarrow> map_of (Regex ?c) name = Some reg \<and> name \<notin> keys (Literal ?c)
              | None \<Rightarrow> map_of (Literal ?c) name = Some pattern \<and> name \<notin> keys (Regex ?c))"
    using L R by (auto simp: keys_map_of split: option.splits)
  then show "\<exists>compiled out. CompileRules decode compile ruleJsonStr = Inr (compiled, out) \<and>
            (if set pattern \<inter> {CHR ''.'', CHR ''+'', CHR ''*'', CHR ''?'', CHR ''('', CHR '')'',
                  CHR ''|'', CHR ''['', CHR '']'', CHR ''{'', CHR ''}'', CHR ''^'', CHR ''$'',
                  CHR 0x5C} = {}
             then map_of (Literal compiled) name = Some pattern \<and> name \<notin> keys (Regex compiled)
             else (case compile pattern of
                     Some reg \<Rightarrow>
                       map_of (Regex compiled) name = Some reg \<and> name \<notin> keys (Literal compiled)
                   | None \<Rightarrow>
                       map_of (Literal compiled) name = Some pattern \<and>
                       name \<notin> keys (Regex compiled)))"
    unfolding CompileRules_Inr [of decode ruleJsonStr ruleMap compile, OF assms(1)] isLiteralPattern_iff by blast
qed

theorem C2_witness:
  "\<exists>compiled out.
     CompileRules
       (\<lambda>s. Some [(''aws'', ''AKIA[0-9A-Z]{16}''), (''secret'', ''hunter2''), (''bad'', ''a(b'')])
       (\<lambda>p. if p = ''a(b'' then None else Some p) ''{}'' = Inr (compiled, out) \<and>
     map_of (Literal compiled) ''secret'' = Some ''hunter2'' \<and> ''secret'' \<notin> keys (Regex compiled)"
  using C2_literal_iff_no_metacharacter [of "\<lambda>s. Some [(''aws'', ''AKIA[0-9A-Z]{16}''), (''secret'', ''hunter2''), (''bad'', ''a(b'')]"
      "''{}''" "[(''aws'', ''AKIA[0-9A-Z]{16}''), (''secret'', ''hunter2''), (''bad'', ''a(b'')]"
      "''secret''" "''hunter2''" "\<lambda>p. if p = ''a(b'' then None else Some p"]
  by simp

lemma warn_mono:
  "set (snd acc) \<subseteq> set (snd (fold (compileRule compile) ruleMap acc))"
proof (induction ruleMap arbitrary: acc)
  case Nil
  show ?case by simp
next
  case (Cons e ruleMap)
  obtain n p where e: "e = (n, p)" by (cases e)
  have "set (snd acc) \<subseteq> set (snd (compileRule compile (n, p) acc))"
    by (cases acc) (auto split: option.splits)
  then show ?case using Cons.IH [of "compileRule compile (n, p) acc"] e by auto
qed

lemma warn_compile_failed:
  "(name, pattern) \<in> set ruleMap \<Longrightarrow> pattern \<noteq> [] \<Longrightarrow> \<not> isLiteralPattern pattern \<Longrightarrow>
   compile pattern = None \<Longrightarrow>
   WarnCompileFailed name pattern \<in> set (snd (fold (compileRule compile) ruleMap acc))"
proof (induction ruleMap arbitrary: acc)
  case Nil
  then show ?case by simp
next
  case (Cons e ruleMap)
  show ?case
  proof (cases "e = (name, pattern)")
    case True
    have "WarnCompileFailed name pattern \<in> set (snd (compileRule compile (name, pattern) acc))"
      using Cons.prems by (cases acc) auto
    then show ?thesis
      using warn_mono [of "compileRule compile (name, pattern) acc" compile ruleMap] True
      by auto
  next
    case False
    then show ?thesis using Cons by auto
  qed
qed

lemma warn_empty:
  "(name, []) \<in> set ruleMap \<Longrightarrow>
   WarnEmptyPattern name \<in> set (snd (fold (compileRule compile) ruleMap acc))"
proof (induction ruleMap arbitrary: acc)
  case Nil
  then show ?case by simp
next
  case (Cons e ruleMap)
  show ?case
  proof (cases "e = (name, [])")
    case True
    have "WarnEmptyPattern name \<in> set (snd (compileRule compile (name, []) acc))"
      by (cases acc) auto
    then show ?thesis
      using warn_mono [of "compileRule compile (name, []) acc" compile ruleMap] True
      by auto
  next
    case False
    then show ?thesis using Cons by auto
  qed
qed

text \<open>
  Claim C4. A rule whose pattern is not literal and does not compile is stored in the
  literal partition with its raw text, with a warning; \<^verbatim>\<open>CompileRules\<close> still returns
  a rule set and no error; and the content matcher emits for that rule one result, whose
  match text is the raw pattern, exactly when the raw pattern occurs in the content as a
  contiguous byte sequence.
\<close>

theorem C4_compile_failure_demotes_to_literal:
  assumes "decode ruleJsonStr = Some ruleMap" and "distinct (map fst ruleMap)"
    and "(name, pattern) \<in> set ruleMap" and "pattern \<noteq> []"
    and "\<not> isLiteralPattern pattern" and "compile pattern = None"
  shows "\<exists>compiled out.
           CompileRules decode compile ruleJsonStr = Inr (compiled, out) \<and>
           map_of (Literal compiled) name = Some pattern \<and>
           name \<notin> keys (Regex compiled) \<and>
           WarnCompileFailed name pattern \<in> set out \<and>
           (\<forall>findAll sched source content useConcurrency.
              filter (\<lambda>r. Rule r = name)
                (processContent findAll sched source content compiled useConcurrency) =
              (if \<exists>ps ss. content = ps @ pattern @ ss
               then [\<lparr>Source = source, Rule = name, Match = pattern\<rparr>] else []))"
proof -
  let ?c = "fst (compileLoop compile ruleMap)"
  let ?out = "snd (compileLoop compile ruleMap) @ 
      [CompileSummary (length (Regex ?c)) (length (Literal ?c))]"
  have run: "CompileRules decode compile ruleJsonStr = Inr (?c, ?out)"
    by (rule CompileRules_Inr [of decode ruleJsonStr ruleMap compile, OF assms(1)])
  have L: "map_of (Literal ?c) name = Some pattern"
    using compileLoop_Literal [OF assms(2,3), of compile] assms(4,6) by simp
  have R: "name \<notin> keys (Regex ?c)"
    using compileLoop_Regex [OF assms(2,3), of compile] assms(6) by (simp add: keys_map_of)
  have W: "WarnCompileFailed name pattern \<in> set ?out"
    using warn_compile_failed [of name pattern ruleMap compile, OF assms(3-6)]
    by (simp add: compileLoop_def)
  have M: "filter (\<lambda>r. Rule r = name)
             (processContent findAll sched source content ?c useConcurrency) =
           (if \<exists>ps ss. content = ps @ pattern @ ss
            then [\<lparr>Source = source, Rule = name, Match = pattern\<rparr>] else [])"
    for findAll :: "'a \<Rightarrow> string \<Rightarrow> string list" and sched source content useConcurrency
    using processContent_rule_absent_regex [OF R, of findAll sched source content useConcurrency]
      filter_rule_present [OF distinct_compileLoop(1) map_of_SomeD [OF L], of content source]
    by (simp add: processLiteralRules_def literalLoop_eq Contains_def sublist_def)
  show ?thesis using run L R W M by blast
qed

theorem C4_witness:
  "\<exists>compiled out.
     CompileRules (\<lambda>s. Some [(''bad'', ''a(b''), (''secret'', ''hunter2'')])
       (\<lambda>p. if p = ''a(b'' then None else Some p) ''{}'' = Inr (compiled, out) \<and>
     map_of (Literal compiled) ''bad'' = Some ''a(b'' \<and>
     ''bad'' \<notin> keys (Regex compiled) \<and>
     WarnCompileFailed ''bad'' ''a(b'' \<in> set out \<and>
     filter (\<lambda>r. Rule r = ''bad'')
       (processContent (\<lambda>reg content. []) [] ''f.js'' ''x = a(b;'' compiled False) =
     [\<lparr>Source = ''f.js'', Rule = ''bad'', Match = ''a(b''\<rparr>]"
proof -
  have nl: "\<not> isLiteralPattern ''a(b''"
    by (simp add: isLiteralPattern_def ContainsAny_def)
  have sub: "\<exists>ps ss. ''x = a(b;'' = ps @ ''a(b'' @ ss"
    by (rule exI [of _ "''x = ''"], rule exI [of _ "'';''"]) simp
  from C4_compile_failure_demotes_to_literal [of "\<lambda>s. Some [(''bad'', ''a(b''), (''secret'', ''hunter2'')]" "''{}''"
      "[(''bad'', ''a(b''), (''secret'', ''hunter2'')]" "''bad''" "''a(b''"
      "\<lambda>p. if p = ''a(b'' then None else Some p"] nl
  obtain compiled :: "string CompiledRules" and out where
    *: "CompileRules (\<lambda>s. Some [(''bad'', ''a(b''), (''secret'', ''hunter2'')])
          (\<lambda>p. if p = ''a(b'' then None else Some p) ''{}'' = Inr (compiled, out)"
       "map_of (Literal compiled) ''bad'' = Some ''a(b''"
       "''bad'' \<notin> keys (Regex compiled)"
       "WarnCompileFailed ''bad'' ''a(b'' \<in> set out"
       "\<And>(findAll :: string \<Rightarrow> string \<Rightarrow> string list) sched source content useConcurrency.
          filter (\<lambda>r. Rule r = ''bad'')
            (processContent findAll sched source content compiled useConcurrency) =
          (if \<exists>ps ss. content = ps @ ''a(b'' @ ss
           then [\<lparr>Source = source, Rule = ''bad'', Match = ''a(b''\<rparr>] else [])"
    by auto
  show ?thesis
    using * (1-4) * (5) [of "\<lambda>reg content. []" "[]" "''f.js''" "''x = a(b;''" False] sub
    by (intro exI [of _ compiled] exI [of _ out]) simp
qed

lemma fst_compileRule:
  "fst (compileRule compile e (cr, out)) = fst (compileRule compile e (cr, out'))"
  by (cases e) (auto split: option.splits)

lemma fst_fold_compileRule:
  "fst (fold (compileRule compile) ruleMap (cr, out)) =
   fst (fold (compileRule compile) ruleMap (cr, out'))"
proof (induction ruleMap arbitrary: cr out out')
  case Nil
  show ?case by simp
next
  case (Cons e ruleMap)
  obtain cr1 out1 where 1: "compileRule compile e (cr, out) = (cr1, out1)"
    by (cases "compileRule compile e (cr, out)")
  obtain cr2 out2 where 2: "compileRule compile e (cr, out') = (cr2, out2)"
    by (cases "compileRule compile e (cr, out')")
  have "cr1 = cr2" using fst_compileRule [of compile e cr out out'] 1 2 by simp
  then show ?case using Cons.IH [of cr1 out1 out2] 1 2 by simp
qed

lemma fold_skips_empty:
  "fst (fold (compileRule compile) (filter (\<lambda>e. snd e \<noteq> []) ruleMap) acc) =
   fst (fold (compileRule compile) ruleMap acc)"
proof (induction ruleMap arbitrary: acc)
  case Nil
  show ?case by simp
next
  case (Cons e ruleMap)
  obtain n p where e: "e = (n, p)" by (cases e)
  obtain cr out where acc: "acc = (cr, out)" by (cases acc)
  show ?case
  proof (cases "p = []")
    case True
    then show ?thesis
      using Cons.IH [of acc] fst_fold_compileRule [of compile ruleMap cr "out @ [WarnEmptyPattern n]" out]
      by (simp add: e acc)
  next
    case False
    then show ?thesis using Cons.IH by (simp add: e)
  qed
qed

text \<open>
  Claim C8. An entry of the rule map whose pattern is the empty string is skipped with a
  warning and no error: its name is in neither partition of the compiled rule set, the
  rule set (hence both counts of the summary line) is the one compiled from the map
  without its empty entries, and the content matcher emits no result for that name on
  any content.
\<close>

theorem C8_empty_pattern_skipped:
  assumes "decode ruleJsonStr = Some ruleMap" and "distinct (map fst ruleMap)"
    and "(name, []) \<in> set ruleMap"
  shows "\<exists>compiled out.
           CompileRules decode compile ruleJsonStr = Inr (compiled, out) \<and>
           WarnEmptyPattern name \<in> set out \<and>
           name \<notin> keys (Literal compiled) \<and>
           name \<notin> keys (Regex compiled) \<and>
           compiled = fst (compileLoop compile (filter (\<lambda>e. snd e \<noteq> []) ruleMap)) \<and>
           last out = CompileSummary (length (Regex compiled)) (length (Literal compiled)) \<and>
           (\<forall>findAll sched source content useConcurrency.
              filter (\<lambda>r. Rule r = name)
                (processContent findAll sched source content compiled useConcurrency) = [])"
proof -
  let ?c = "fst (compileLoop compile ruleMap)"
  let ?out = "snd (compileLoop compile ruleMap) @ 
      [CompileSummary (length (Regex ?c)) (length (Literal ?c))]"
  have run: "CompileRules decode compile ruleJsonStr = Inr (?c, ?out)"
    by (rule CompileRules_Inr [of decode ruleJsonStr ruleMap compile, OF assms(1)])
  have L: "name \<notin> keys (Literal ?c)"
    using compileLoop_Literal [OF assms(2,3), of compile] by (simp add: keys_map_of)
  have R: "name \<notin> keys (Regex ?c)"
    using compileLoop_Regex [OF assms(2,3), of compile] by (simp add: keys_map_of)
  have W: "WarnEmptyPattern name \<in> set ?out"
    using warn_empty [OF assms(3), of compile] by (simp add: compileLoop_def)
  have F: "?c = fst (compileLoop compile (filter (\<lambda>e. snd e \<noteq> []) ruleMap))"
    by (simp add: compileLoop_def fold_skips_empty)
  have S: "last ?out = CompileSummary (length (Regex ?c)) (length (Literal ?c))"
    by simp
  have M: "filter (\<lambda>r. Rule r = name)
             (processContent findAll sched source content ?c useConcurrency) = []"
    for findAll :: "'a \<Rightarrow> string \<Rightarrow> string list" and sched source content useConcurrency
    using processContent_rule_absent_regex [OF R, of findAll sched source content useConcurrency]
      processLiteralRules_rule_absent [OF L, of source content]
    by simp
  show ?thesis using run L R W F S M by blast
qed

theorem C8_witness:
  "\<exists>compiled out.
     CompileRules (\<lambda>s. Some [(''none'', ''''), (''secret'', ''hunter2'')])
       (\<lambda>p. Some p) ''{}'' = Inr (compiled, out) \<and>
     WarnEmptyPattern ''none'' \<in> set out \<and>
     ''none'' \<notin> keys (Literal compiled) \<and>
     ''none'' \<notin> keys (Regex compiled) \<and>
     last out = CompileSummary (length (Regex compiled)) (length (Literal compiled)) \<and>
     filter (\<lambda>r. Rule r = ''none'')
       (processContent (\<lambda>reg content. [content]) [] ''f.js'' ''hunter2'' compiled True) = []"
  using C8_empty_pattern_skipped [of "\<lambda>s. Some [(''none'', ''''), (''secret'', ''hunter2'')]" "''{}''"
      "[(''none'', ''''), (''secret'', ''hunter2'')]" "''none''" "\<lambda>p. Some p"]
  by auto

section \<open>The result writer\<close>

lemma formatLoop_eq: "formatLoop results buf = buf @ concat (map formatResult results)"
  by (induction results arbitrary: buf) auto

lemma formatResult_nonempty: "formatResult r \<noteq> []"
  by (simp add: formatResult_def)

lemma WriteResultsToFile_complete:
  assumes "results \<noteq> []" and "\<not> openFails sys filename"
    and "length (concat (map formatResult results)) \<le>
           accepted sys filename (concat (map formatResult results))"
  shows "WriteResultsToFile sys filename results files =
           (None, files(filename \<mapsto>
              (case files filename of None \<Rightarrow> [] | Some old \<Rightarrow> old) @
              concat (map formatResult results)))"
  using assms
  by (auto simp: WriteResultsToFile_def OpenFile_def fileWrite_def formatLoop_eq Let_def
      min_def split: option.splits)

lemma splitLines_line:
  "CHR 0x0A \<notin> set l \<Longrightarrow> splitLines cur (l @ CHR 0x0A # rest) = (cur @ l) # splitLines [] rest"
  by (induction l arbitrary: cur) auto

lemma linesOf_records:
  assumes "\<forall>r \<in> set results. CHR 0x0A \<notin> set (Source r) \<union> set (Rule r) \<union> set (Match r)"
  shows "linesOf (concat (map formatResult results)) =
           map (\<lambda>r. ''['' @ Source r @ ''] '' @ Rule r @ '': '' @ Match r) results"
  using assms
proof (induction results)
  case Nil
  show ?case by (simp add: linesOf_def)
next
  case (Cons r results)
  have nl: "CHR 0x0A \<notin> set (''['' @ Source r @ ''] '' @ Rule r @ '': '' @ Match r)"
    using Cons.prems by auto
  have "formatResult r @ concat (map formatResult results) =
        (''['' @ Source r @ ''] '' @ Rule r @ '': '' @ Match r) @
          CHR 0x0A # concat (map formatResult results)"
    by (simp add: formatResult_def)
  then show ?case
    using splitLines_line [OF nl, of "[]" "concat (map formatResult results)"] Cons
    by (simp add: linesOf_def)
qed

text \<open>
  Claim C9, as the code has it. With no results the writer returns \<^verbatim>\<open>nil\<close> and leaves
  the file system as it is. With \<open>n > 0\<close> results, when the file can be opened and the write is
  complete, it returns \<^verbatim>\<open>nil\<close> and the file is its former content (empty if it did not
  exist) followed by the \<open>n\<close> records \<^verbatim>\<open>[source] rule: match\<close>, each ended by a newline,
  in the order of the results; a second call on the same path puts its records after
  those of the first. When the file cannot be opened it returns an error and changes
  nothing. The records are \<open>n\<close> lines of that format when no source, rule name or match
  text contains a newline.
\<close>

theorem C9_write_appends_records:
  "WriteResultsToFile sys filename [] files = (None, files) \<and>
   (results \<noteq> [] \<and> openFails sys filename \<longrightarrow>
      WriteResultsToFile sys filename results files = (Some (OpenFileError filename), files)) \<and>
   (results \<noteq> [] \<and> \<not> openFails sys filename \<and>
    length (concat (map formatResult results)) \<le>
      accepted sys filename (concat (map formatResult results)) \<longrightarrow>
      WriteResultsToFile sys filename results files =
        (None, files(filename \<mapsto>
           (case files filename of None \<Rightarrow> [] | Some old \<Rightarrow> old) @
           concat (map formatResult results))) \<and>
      length (map formatResult results) = length results \<and>
      (second \<noteq> [] \<and>
       length (concat (map formatResult second)) \<le>
         accepted sys filename (concat (map formatResult second)) \<longrightarrow>
         WriteResultsToFile sys filename second
           (snd (WriteResultsToFile sys filename results files)) =
         (None, files(filename \<mapsto>
            (case files filename of None \<Rightarrow> [] | Some old \<Rightarrow> old) @
            concat (map formatResult results) @ concat (map formatResult second))))) \<and>
   ((\<forall>r \<in> set results. CHR 0x0A \<notin> set (Source r) \<union> set (Rule r) \<union> set (Match r)) \<longrightarrow>
      linesOf (concat (map formatResult results)) =
        map (\<lambda>r. ''['' @ Source r @ ''] '' @ Rule r @ '': '' @ Match r) results)"
proof (intro conjI impI)
  show "WriteResultsToFile sys filename [] files = (None, files)"
    by (simp add: WriteResultsToFile_def)
next
  assume "results \<noteq> [] \<and> openFails sys filename"
  then show "WriteResultsToFile sys filename results files =
      (Some (OpenFileError filename), files)"
    by (simp add: WriteResultsToFile_def OpenFile_def)
next
  assume a: "results \<noteq> [] \<and> \<not> openFails sys filename \<and>
    length (concat (map formatResult results)) \<le>
      accepted sys filename (concat (map formatResult results))"
  then show 1: "WriteResultsToFile sys filename results files =
        (None, files(filename \<mapsto>
           (case files filename of None \<Rightarrow> [] | Some old \<Rightarrow> old) @
           concat (map formatResult results)))"
    using WriteResultsToFile_complete [of results sys filename files] by blast
  show "length (map formatResult results) = length results" by simp
  assume b: "second \<noteq> [] \<and>
       length (concat (map formatResult second)) \<le>
         accepted sys filename (concat (map formatResult second))"
  show "WriteResultsToFile sys filename second
           (snd (WriteResultsToFile sys filename results files)) =
         (None, files(filename \<mapsto>
            (case files filename of None \<Rightarrow> [] | Some old \<Rightarrow> old) @
            concat (map formatResult results) @ concat (map formatResult second)))"
    using a b
      WriteResultsToFile_complete [of second sys filename
        "files(filename \<mapsto> (case files filename of None \<Rightarrow> [] | Some old \<Rightarrow> old) @
           concat (map formatResult results))"]
    by (simp add: 1)
next
  assume "\<forall>r \<in> set results. CHR 0x0A \<notin> set (Source r) \<union> set (Rule r) \<union> set (Match r)"
  then show "linesOf (concat (map formatResult results)) =
        map (\<lambda>r. ''['' @ Source r @ ''] '' @ Rule r @ '': '' @ Match r) results"
    by (rule linesOf_records)
qed

theorem C9_witness:
  "WriteResultsToFile
     \<lparr>openFails = (\<lambda>p. False), readFails = (\<lambda>p. False), accepted = (\<lambda>p d. length d)\<rparr>
     ''out.txt'' [\<lparr>Source = ''b.js'', Rule = ''k'', Match = ''AKIA''\<rparr>]
     (snd (WriteResultsToFile
        \<lparr>openFails = (\<lambda>p. False), readFails = (\<lambda>p. False), accepted = (\<lambda>p d. length d)\<rparr>
        ''out.txt'' [\<lparr>Source = ''a.js'', Rule = ''secret'', Match = ''hunter2''\<rparr>,
                     \<lparr>Source = ''a.js'', Rule = ''k'', Match = ''x y''\<rparr>]
        [''out.txt'' \<mapsto> ''old'' @ [CHR 0x0A]])) =
   (None, [''out.txt'' \<mapsto>
      ''old'' @ [CHR 0x0A] @ ''[a.js] secret: hunter2'' @ [CHR 0x0A] @ ''[a.js] k: x y'' @ [CHR 0x0A] @
      ''[b.js] k: AKIA'' @ [CHR 0x0A]]) \<and>
   linesOf (concat (map formatResult
      [\<lparr>Source = ''a.js'', Rule = ''secret'', Match = ''hunter2''\<rparr>,
       \<lparr>Source = ''a.js'', Rule = ''k'', Match = ''x y''\<rparr>])) =
   [''[a.js] secret: hunter2'', ''[a.js] k: x y'']"
proof -
  let ?sys = "\<lparr>openFails = (\<lambda>p. False), readFails = (\<lambda>p. False), accepted = (\<lambda>p d. length d)\<rparr>"
  let ?first = "[\<lparr>Source = ''a.js'', Rule = ''secret'', Match = ''hunter2''\<rparr>,
                 \<lparr>Source = ''a.js'', Rule = ''k'', Match = ''x y''\<rparr>]"
  let ?second = "[\<lparr>Source = ''b.js'', Rule = ''k'', Match = ''AKIA''\<rparr>]"
  have a: "?first \<noteq> [] \<and> \<not> openFails ?sys ''out.txt'' \<and>
      length (concat (map formatResult ?first)) \<le>
        accepted ?sys ''out.txt'' (concat (map formatResult ?first))"
    by simp
  have b: "?second \<noteq> [] \<and>
      length (concat (map formatResult ?second)) \<le>
        accepted ?sys ''out.txt'' (concat (map formatResult ?second))"
    by simp
  have c: "\<forall>r \<in> set ?first. CHR 0x0A \<notin> set (Source r) \<union> set (Rule r) \<union> set (Match r)"
    by simp
  from C9_write_appends_records [of ?sys "''out.txt''" "[''out.txt'' \<mapsto> ''old'' @ [CHR 0x0A]]" ?first ?second] a b c
  have "WriteResultsToFile ?sys ''out.txt'' ?second
          (snd (WriteResultsToFile ?sys ''out.txt'' ?first [''out.txt'' \<mapsto> ''old'' @ [CHR 0x0A]])) =
        (None, [''out.txt'' \<mapsto> ''old'' @ [CHR 0x0A]](''out.txt'' \<mapsto>
           (case [''out.txt'' \<mapsto> ''old'' @ [CHR 0x0A]] ''out.txt'' of None \<Rightarrow> [] | Some old \<Rightarrow> old) @
           concat (map formatResult ?first) @ concat (map formatResult ?second)))"
    and "linesOf (concat (map formatResult ?first)) =
           map (\<lambda>r. ''['' @ Source r @ ''] '' @ Rule r @ '': '' @ Match r) ?first"
    by blast+
  then show ?thesis by (simp add: formatResult_def)
qed

text \<open>
  As stated, with \<open>n\<close> lines for \<open>n\<close> results in every case, claim C9 fails on a match
  that spans two lines: one result, two lines in the file, and neither line has the
  format \<^verbatim>\<open>[source] rule: match\<close> of the result. It fails as well when the file cannot
  be opened: an error is returned and no line is appended.
\<close>

theorem C9_counterexample:
  "fst (WriteResultsToFile
          \<lparr>openFails = (\<lambda>p. False), readFails = (\<lambda>p. False), accepted = (\<lambda>p d. length d)\<rparr>
          ''out.txt'' [\<lparr>Source = ''s'', Rule = ''r'', Match = [CHR ''a'', CHR 0x0A, CHR ''b'']\<rparr>]
          Map.empty) = None \<and>
   snd (WriteResultsToFile
          \<lparr>openFails = (\<lambda>p. False), readFails = (\<lambda>p. False), accepted = (\<lambda>p d. length d)\<rparr>
          ''out.txt'' [\<lparr>Source = ''s'', Rule = ''r'', Match = [CHR ''a'', CHR 0x0A, CHR ''b'']\<rparr>]
          Map.empty) ''out.txt'' =
     Some (''[s] r: a'' @ [CHR 0x0A] @ ''b'' @ [CHR 0x0A]) \<and>
   linesOf (''[s] r: a'' @ [CHR 0x0A] @ ''b'' @ [CHR 0x0A]) = [''[s] r: a'', ''b''] \<and>
   length (linesOf (''[s] r: a'' @ [CHR 0x0A] @ ''b'' @ [CHR 0x0A])) \<noteq>
   length [\<lparr>Source = ''s'', Rule = ''r'', Match = [CHR ''a'', CHR 0x0A, CHR ''b'']\<rparr>] \<and>
   fst (WriteResultsToFile
          \<lparr>openFails = (\<lambda>p. True), readFails = (\<lambda>p. False), accepted = (\<lambda>p d. length d)\<rparr>
          ''out.txt'' [\<lparr>Source = ''s'', Rule = ''r'', Match = ''m''\<rparr>] Map.empty) =
     Some (OpenFileError ''out.txt'') \<and>
   snd (WriteResultsToFile
          \<lparr>openFails = (\<lambda>p. True), readFails = (\<lambda>p. False), accepted = (\<lambda>p d. length d)\<rparr>
          ''out.txt'' [\<lparr>Source = ''s'', Rule = ''r'', Match = ''m''\<rparr>] Map.empty) ''out.txt'' =
     None"
  by (simp add: WriteResultsToFile_def OpenFile_def fileWrite_def formatResult_def linesOf_def)

section \<open>Output file names\<close>

lemma allowed_sanitizeRune: "allowedChar (sanitizeRune c)"
  by (simp add: allowedChar_def sanitizeRune_def)

lemma allowed_mapRunes: "\<forall>x \<in> set (mapRunes s). allowedChar x"
proof (induction s rule: mapRunes.induct)
  case 1
  show ?case by simp
next
  case (2 c cs)
  have "allowedChar (if c < CHR 0x80 then sanitizeRune c else CHR ''_'')"
    using allowed_sanitizeRune [of c] by (simp add: allowedChar_def)
  then show ?case using 2 by simp
qed

lemma mapRunes_empty: "mapRunes s = [] \<longleftrightarrow> s = []"
  by (cases s) simp_all

lemma allowed_file_all: "list_all allowedChar ''file_''" "list_all allowedChar ''default_filename''"
  by code_simp+

lemma allowed_file: "c \<in> set ''file_'' \<Longrightarrow> allowedChar c" "c \<in> set ''default_filename'' \<Longrightarrow> allowedChar c"
  using allowed_file_all unfolding list_all_iff by blast+

lemma SanitizeFilename_shape:
  "\<exists>t. (\<forall>c \<in> set t. allowedChar c) \<and>
       (SanitizeFilename urlParse filepathBase path = ''default_filename'' \<or>
        SanitizeFilename urlParse filepathBase path = ''file_'' @ t \<or>
        (SanitizeFilename urlParse filepathBase path = t \<and> t \<noteq> [] \<and>
         hd t \<noteq> CHR ''.'' \<and> hd t \<noteq> CHR ''_''))"
proof -
  define p where "p = (case urlParse path of
                     None \<Rightarrow> filepathBase path
                   | Some (hostname, upath) \<Rightarrow>
                       if hostname \<noteq> [] then hostname @ replaceSlashes upath
                       else filepathBase path)"
  define t where "t = (if length (mapRunes p) > 200 then take 200 (mapRunes p) else mapRunes p)"
  define u where "u = (if length t > 0 \<and> (t ! 0 = CHR ''.'' \<or> t ! 0 = CHR ''_'')
                        then ''file_'' @ t else t)"
  have S: "SanitizeFilename urlParse filepathBase path =
             (if u = [] then ''default_filename'' else u)"
    unfolding SanitizeFilename_def Let_def u_def t_def p_def by (rule refl)
  have ok: "\<forall>c \<in> set t. allowedChar c"
    unfolding t_def using allowed_mapRunes [of p] by (auto dest: in_set_takeD)
  show ?thesis
  proof (cases "t = []")
    case True
    then have "u = []" by (simp add: u_def)
    then show ?thesis using S ok by auto
  next
    case False
    then have hd: "t ! 0 = hd t" by (simp add: hd_conv_nth)
    show ?thesis
    proof (cases "hd t = CHR ''.'' \<or> hd t = CHR ''_''")
      case True
      then have "u = ''file_'' @ t" using False hd by (simp add: u_def)
      then show ?thesis using S ok by auto
    next
      case no: False
      then have "u = t" using False hd by (simp add: u_def)
      then show ?thesis using S ok False no by auto
    qed
  qed
qed

lemma allowed_SanitizeFilename:
  "c \<in> set (SanitizeFilename urlParse filepathBase path) \<Longrightarrow> allowedChar c"
  using SanitizeFilename_shape [of urlParse filepathBase path] allowed_file [of c]
  by (metis Un_iff set_append)

lemma SanitizeFilename_nonempty: "SanitizeFilename urlParse filepathBase path \<noteq> []"
  using SanitizeFilename_shape [of urlParse filepathBase path] by auto

lemma SanitizeFilename_hd:
  "hd (SanitizeFilename urlParse filepathBase path) \<noteq> CHR ''.'' \<and>
   hd (SanitizeFilename urlParse filepathBase path) \<noteq> CHR ''_''"
  using SanitizeFilename_shape [of urlParse filepathBase path] by auto


lemma extLoop_empty:
  "extLoop xs acc = [] \<longleftrightarrow> CHR ''.'' \<notin> set (takeWhile (\<lambda>c. c \<noteq> CHR ''/'') xs)"
  by (induction xs arbitrary: acc) auto

lemma Ext_empty:
  assumes "CHR ''/'' \<notin> set s"
  shows "Ext s = [] \<longleftrightarrow> CHR ''.'' \<notin> set s"
proof -
  have "\<forall>x \<in> set (rev s). x \<noteq> CHR ''/''" using assms by auto
  then have tw: "takeWhile (\<lambda>c. c \<noteq> CHR ''/'') (rev s) = rev s"
    by (simp only: takeWhile_eq_all_conv)
  show ?thesis unfolding Ext_def extLoop_empty tw by simp
qed

lemma not_allowed_slash: "\<not> allowedChar (CHR ''/'')"
  by code_simp


text \<open>
  Claim C10. For every input, whatever \<^verbatim>\<open>url.Parse\<close> and \<^verbatim>\<open>filepath.Base\<close> make of
  it, \<^verbatim>\<open>SanitizeFilename\<close> returns a non-empty string of ASCII letters, digits,
  underscores, hyphens and dots whose first character is neither a dot nor an
  underscore; and \<^verbatim>\<open>GetOutputFilePath\<close> appends \<^verbatim>\<open>.txt\<close> to the sanitized name exactly
  when \<^verbatim>\<open>filepath.Ext\<close> finds no extension in it, that is when it contains no dot.
\<close>

theorem C10_sanitized_name_and_txt_suffix:
  "SanitizeFilename urlParse filepathBase path \<noteq> [] \<and>
   (\<forall>c \<in> set (SanitizeFilename urlParse filepathBase path).
      (CHR ''a'' \<le> c \<and> c \<le> CHR ''z'') \<or> (CHR ''A'' \<le> c \<and> c \<le> CHR ''Z'') \<or>
      (CHR ''0'' \<le> c \<and> c \<le> CHR ''9'') \<or> c = CHR ''_'' \<or> c = CHR ''-'' \<or> c = CHR ''.'') \<and>
   hd (SanitizeFilename urlParse filepathBase path) \<noteq> CHR ''.'' \<and>
   hd (SanitizeFilename urlParse filepathBase path) \<noteq> CHR ''_'' \<and>
   (Ext (SanitizeFilename urlParse filepathBase path) = [] \<longleftrightarrow>
      CHR ''.'' \<notin> set (SanitizeFilename urlParse filepathBase path)) \<and>
   GetOutputFilePath filepathJoin urlParse filepathBase outputDir path =
     filepathJoin outputDir
       (if Ext (SanitizeFilename urlParse filepathBase path) = []
        then SanitizeFilename urlParse filepathBase path @ ''.txt''
        else SanitizeFilename urlParse filepathBase path)"
proof -
  let ?s = "SanitizeFilename urlParse filepathBase path"
  have ok: "\<forall>c \<in> set ?s. allowedChar c" using allowed_SanitizeFilename by blast
  then have "CHR ''/'' \<notin> set ?s" using not_allowed_slash by blast
  then have ext: "Ext ?s = [] \<longleftrightarrow> CHR ''.'' \<notin> set ?s" by (rule Ext_empty)
  have out: "GetOutputFilePath filepathJoin urlParse filepathBase outputDir path =
     filepathJoin outputDir (if Ext ?s = [] then ?s @ ''.txt'' else ?s)"
    by (simp add: GetOutputFilePath_def Let_def)
  show ?thesis
    using ok [unfolded allowedChar_def] SanitizeFilename_nonempty [of urlParse filepathBase path]
      SanitizeFilename_hd [of urlParse filepathBase path] ext out
    by blast
qed

theorem C10_witness:
  "SanitizeFilename (\<lambda>s. None) (\<lambda>s. ''.env prod'') ''/srv/app/.env prod'' = ''file_.env_prod'' \<and>
   GetOutputFilePath (\<lambda>d f. d @ ''/'' @ f) (\<lambda>s. None) (\<lambda>s. ''.env prod'') ''results''
     ''/srv/app/.env prod'' = ''results/file_.env_prod'' \<and>
   GetOutputFilePath (\<lambda>d f. d @ ''/'' @ f) (\<lambda>s. Some (''example.com'', ''/assets/main'')) (\<lambda>s. s)
     ''results'' ''https://example.com/assets/main'' = ''results/example.com_assets_main'' \<and>
   GetOutputFilePath (\<lambda>d f. d @ ''/'' @ f) (\<lambda>s. None) (\<lambda>s. ''README'') ''results''
     ''docs/README'' = ''results/README.txt''"
proof -
  have 1: "SanitizeFilename (\<lambda>s. None) (\<lambda>s. ''.env prod'') ''/srv/app/.env prod'' = ''file_.env_prod''"
    by code_simp
  have 2: "SanitizeFilename (\<lambda>s. Some (''example.com'', ''/assets/main'')) (\<lambda>s. s)
             ''https://example.com/assets/main'' = ''example.com_assets_main''"
    by code_simp
  have 3: "SanitizeFilename (\<lambda>s. None) (\<lambda>s. ''README'') ''docs/README'' = ''README''"
    by code_simp
  show ?thesis
    using C10_sanitized_name_and_txt_suffix [of "\<lambda>s. None" "\<lambda>s. ''.env prod''" "''/srv/app/.env prod''" "\<lambda>d f. d @ ''/'' @ f" "''results''"]
      C10_sanitized_name_and_txt_suffix [of "\<lambda>s. Some (''example.com'', ''/assets/main'')" "\<lambda>s. s"
             "''https://example.com/assets/main''" "\<lambda>d f. d @ ''/'' @ f" "''results''"]
      C10_sanitized_name_and_txt_suffix [of "\<lambda>s. None" "\<lambda>s. ''README''" "''docs/README''" "\<lambda>d f. d @ ''/'' @ f" "''results''"]
    by (simp add: 1 2 3)
qed

section \<open>The run and its exit status\<close>

lemma writeResults_nothing: "writeResults env cfg sourceIdentifier [] files = files"
  by (simp add: writeResults_def)

lemma WriteResultsToFile_open_error:
  "openFails sys filename \<Longrightarrow> snd (WriteResultsToFile sys filename results files) = files"
  by (simp add: WriteResultsToFile_def OpenFile_def)

lemma writeResults_open_error:
  "openFails (osOf env)
     (GetOutputFilePath (pathJoin env) (netUrlParse env) (pathBase env) (OutputDir cfg)
        sourceIdentifier) \<Longrightarrow>
   writeResults env cfg sourceIdentifier results files = files"
  by (simp add: writeResults_def WriteResultsToFile_open_error Let_def)

lemma localFileResults_read_error:
  "ReadFile (osOf env) filePath files = None \<Longrightarrow>
   localFileResults env filePath compiledRules files = []"
  by (simp add: localFileResults_def)

text \<open>With no schedule the pool handles the queue target by target: the run of
  \<^verbatim>\<open>processLocalFile\<close> on each path, in the order of the queue, is one of its runs.\<close>

lemma fold_finish_Taken:
  "fst (fold (\<lambda>target. finishSlot scan store (Taken target)) queue (files, handled)) =
   fold (\<lambda>target files. store target (scan target files) files) queue files"
  by (induction queue arbitrary: files handled) auto

lemma runPool_unscheduled:
  "fst (runPool (\<lambda>filePath. localFileResults env filePath compiledRules) (writeResults env cfg)
          width [] queue [] (files, [])) =
   fold (\<lambda>filePath. processLocalFile env filePath cfg compiledRules) queue files"
proof -
  have "(\<lambda>filePath. processLocalFile env filePath cfg compiledRules) =
        (\<lambda>target files. writeResults env cfg target
           (localFileResults env target compiledRules files) files)"
    by (simp add: fun_eq_iff processLocalFile_def)
  then show ?thesis by (simp add: drainPool_def fold_finish_Taken)
qed

text \<open>Whatever the schedule, the pool handles every target of the queue, once.\<close>

fun slotTarget :: "slot \<Rightarrow> string" where
  "slotTarget (Taken target) = target"
| "slotTarget (Ready target results) = target"

lemma handled_finishSlot:
  "mset (snd (finishSlot scan store s state)) = add_mset (slotTarget s) (mset (snd state))"
  by (cases s; cases state) auto

lemma handled_fold_finishSlot:
  "mset (snd (fold (finishSlot scan store) slots state)) =
   mset (map slotTarget slots) + mset (snd state)"
  by (induction slots arbitrary: state) (auto simp: handled_finishSlot)

lemma handled_fold_Taken:
  "mset (snd (fold (\<lambda>target. finishSlot scan store (Taken target)) queue state)) =
   mset queue + mset (snd state)"
  by (induction queue arbitrary: state) (auto simp: handled_finishSlot)

lemma handled_drainPool:
  "mset (snd (drainPool scan store queue slots state)) =
   mset queue + mset (map slotTarget slots) + mset (snd state)"
  by (simp add: drainPool_def handled_fold_Taken handled_fold_finishSlot)

lemma mset_remove_nth:
  "i < length xs \<Longrightarrow> mset xs = add_mset (xs ! i) (mset (take i xs @ drop (Suc i) xs))"
  by (metis Cons_nth_drop_Suc append_take_drop_id mset.simps(2) mset_append
      union_mset_add_mset_right)

lemma runPool_handles_all:
  "mset (snd (runPool scan store width sched queue slots state)) =
   mset queue + mset (map slotTarget slots) + mset (snd state)"
proof (induction scan store width sched queue slots state rule: runPool.induct)
  case (1 scan store width queue slots state)
  show ?case by (simp add: handled_drainPool)
next
  case (2 scan store width sched queue slots state)
  then show ?case by (cases queue) auto
next
  case (3 scan store width i sched queue slots files handled)
  show ?case
  proof (cases "i < length slots")
    case False
    then show ?thesis using 3 by simp
  next
    case True
    show ?thesis
    proof (cases "slots ! i")
      case (Taken target)
      have "map slotTarget (slots[i := Ready target (scan target files)]) = map slotTarget slots"
        using True Taken by (simp add: map_update list_update_same_conv)
      then show ?thesis using 3(1) [OF True Taken] True Taken by simp
    next
      case (Ready target results)
      then show ?thesis using 3(2) [OF True Ready] True by simp
    qed
  qed
next
  case (4 scan store width i sched queue slots files handled)
  show ?case
  proof (cases "i < length slots")
    case False
    then show ?thesis using 4 by simp
  next
    case True
    show ?thesis
    proof (cases "slots ! i")
      case (Taken target)
      then show ?thesis using 4(1) [OF True Taken] True by simp
    next
      case (Ready target results)
      have "mset (map slotTarget slots) =
            add_mset target (mset (map slotTarget (take i slots @ drop (Suc i) slots)))"
        using mset_remove_nth [of i "map slotTarget slots"] True Ready
        by (simp add: take_map drop_map)
      then show ?thesis using 4(2) [OF True Ready] True Ready by simp
    qed
  qed
qed

text \<open>A pool whose writes all fail to open leaves the file system as it was.\<close>

lemma finishSlot_no_effect:
  "\<forall>target results files. store target results files = files \<Longrightarrow>
   fst (finishSlot scan store s state) = fst state"
  by (cases s; cases state) auto

lemma fold_finishSlot_no_effect:
  "\<forall>target results files. store target results files = files \<Longrightarrow>
   fst (fold (finishSlot scan store) slots state) = fst state"
  by (induction slots arbitrary: state) (auto simp: finishSlot_no_effect)

lemma drainPool_no_effect:
  assumes "\<forall>target results files. store target results files = files"
  shows "fst (drainPool scan store queue slots state) = fst state"
proof -
  have "fold (\<lambda>target. finishSlot scan store (Taken target)) queue st =
        fold (finishSlot scan store) (map Taken queue) st" for st
    by (simp add: fold_map comp_def)
  then show ?thesis
    using fold_finishSlot_no_effect [OF assms] by (simp add: drainPool_def)
qed

lemma runPool_no_effect:
  "\<forall>target results files. store target results files = files \<Longrightarrow>
   fst (runPool scan store width sched queue slots state) = fst state"
proof (induction scan store width sched queue slots state rule: runPool.induct)
  case (1 scan store width queue slots state)
  then show ?case by (simp add: drainPool_no_effect)
next
  case (2 scan store width sched queue slots state)
  then show ?case by (cases queue) auto
next
  case (3 scan store width i sched queue slots files handled)
  then show ?case by (cases "i < length slots"; cases "slots ! i") auto
next
  case (4 scan store width i sched queue slots files handled)
  then show ?case by (cases "i < length slots"; cases "slots ! i") auto
qed

text \<open>The exit status of a run whose scan starts.\<close>

lemma main_started:
  assumes "parseFlags env = Flags cfg"
    and "ReadConfigFile (osOf env) (ConfigFile cfg) files = Some ruleJsonStr"
    and "CompileRules (jsonDecode env) (regexpCompile env) ruleJsonStr = Inr (compiledRules, out)"
    and "Regex compiledRules \<noteq> [] \<or> Literal compiledRules \<noteq> []"
  shows "main env files =
     (if Mode cfg = ''localScan''
      then (exitStatus (fst (ScanLocalDirectory env cfg compiledRules files)),
            snd (ScanLocalDirectory env cfg compiledRules files))
      else if Mode cfg = ''urlScan''
      then (exitStatus (fst (ScanURLs env cfg compiledRules files)),
            snd (ScanURLs env cfg compiledRules files))
      else (1, files))"
  using assms by (auto simp: main_def split: prod.splits)

lemma ScanLocalDirectory_started:
  assumes "\<not> statNotExist env (LocalDir cfg)"
    and "\<not> makechanPanics (chanLimit env) 0 (ThreadNum cfg)"
    and "\<not> makechanPanics (chanLimit env) 16 (ThreadNum cfg * 2)"
    and "ThreadNum cfg \<noteq> 0"
    and "\<not> exhausted env (unat (ThreadNum cfg))"
  shows "ScanLocalDirectory env cfg compiledRules files =
     (ScanReturned None,
      fst (runPool (\<lambda>filePath. localFileResults env filePath compiledRules)
             (writeResults env cfg) (unat (ThreadNum cfg)) (poolSchedule env)
             (walkLoop (shouldScanFile env) (walkDir env (LocalDir cfg)) []) []
             (files, [])))"
  using assms by (simp add: ScanLocalDirectory_def)

lemma main_local_scan:
  assumes "parseFlags env = Flags cfg"
    and "ReadConfigFile (osOf env) (ConfigFile cfg) files = Some ruleJsonStr"
    and "CompileRules (jsonDecode env) (regexpCompile env) ruleJsonStr = Inr (compiledRules, out)"
    and "Regex compiledRules \<noteq> [] \<or> Literal compiledRules \<noteq> []"
    and "Mode cfg = ''localScan''"
    and "\<not> statNotExist env (LocalDir cfg)"
    and "\<not> makechanPanics (chanLimit env) 0 (ThreadNum cfg)"
    and "\<not> makechanPanics (chanLimit env) 16 (ThreadNum cfg * 2)"
    and "ThreadNum cfg \<noteq> 0"
    and "\<not> exhausted env (unat (ThreadNum cfg))"
  shows "main env files =
     (0, fst (runPool (\<lambda>filePath. localFileResults env filePath compiledRules)
                (writeResults env cfg) (unat (ThreadNum cfg)) (poolSchedule env)
                (walkLoop (shouldScanFile env) (walkDir env (LocalDir cfg)) []) []
                (files, [])))"
  using main_started [OF assms(1-4)] ScanLocalDirectory_started [OF assms(6-10)] assms(5)
  by (simp add: exitStatus_def)

text \<open>A width from \<open>2 ^ 62\<close> on makes the size of the queue wrap around to a negative
  number, and the local scan ends in a panic.\<close>

lemma makechanPanics_wrapped: "makechanPanics limit 16 ((2 ^ 62 :: goInt) * 2)"
  by (simp add: makechanPanics_def)

lemma ScanLocalDirectory_wide:
  "\<not> statNotExist env (LocalDir cfg) \<Longrightarrow> ThreadNum cfg = 2 ^ 62 \<Longrightarrow>
   ScanLocalDirectory env cfg compiledRules files = (ScanFatal, files)"
  using makechanPanics_wrapped by (simp add: ScanLocalDirectory_def)

text \<open>The same for the scan of a list of URLs, and what a URL that cannot be fetched
  or answers outside 2xx contributes.\<close>

lemma dispatchURLs_started:
  "\<not> makechanPanics (chanLimit env) 0 (ThreadNum cfg) \<Longrightarrow> ThreadNum cfg \<noteq> 0 \<Longrightarrow>
   fst (dispatchURLs env cfg compiledRules urlsToScan files) = ScanReturned None"
  by (simp add: dispatchURLs_def Let_def)

lemma main_url_list_scan:
  assumes "parseFlags env = Flags cfg"
    and "ReadConfigFile (osOf env) (ConfigFile cfg) files = Some ruleJsonStr"
    and "CompileRules (jsonDecode env) (regexpCompile env) ruleJsonStr = Inr (compiledRules, out)"
    and "Regex compiledRules \<noteq> [] \<or> Literal compiledRules \<noteq> []"
    and "Mode cfg = ''urlScan''"
    and "CreateHTTPClient (netUrlParse env) (Options cfg) = None"
    and "SingleURL cfg = []" and "URLListFile cfg \<noteq> []"
    and "readURLsFromFile env (URLListFile cfg) files = Some urls"
    and "\<not> makechanPanics (chanLimit env) 0 (ThreadNum cfg)"
    and "ThreadNum cfg \<noteq> 0"
  shows "fst (main env files) = 0"
  using main_started [OF assms(1-4)] assms(5-9)
    dispatchURLs_started [OF assms(10,11), of compiledRules urls files]
  by (simp add: ScanURLs_def exitStatus_def)

lemma urlResults_no_response:
  "doRequest env (if \<not> prefix ''http://'' u \<and> \<not> prefix ''https://'' u
                  then ''https://'' @ u else u) = None \<Longrightarrow>
   urlResults env u cfg compiledRules = []"
  by (simp add: urlResults_def Let_def)

lemma urlResults_bad_status:
  "doRequest env (if \<not> prefix ''http://'' u \<and> \<not> prefix ''https://'' u
                  then ''https://'' @ u else u) = Some resp \<Longrightarrow>
   StatusCode resp < 200 \<or> 300 \<le> StatusCode resp \<Longrightarrow>
   urlResults env u cfg compiledRules = []"
  by (simp add: urlResults_def Let_def)

text \<open>The two runs.\<close>

lemma demo_queue:
  "walkLoop (shouldScanFile (demoEnv sys sched)) (walkDir (demoEnv sys sched) (LocalDir demoConfig)) [] =
     [''src/a.js'', ''src/b.js'']"
  by (simp add: demoEnv_def demoConfig_def)

lemma demo_rules:
  "CompileRules (jsonDecode (demoEnv sys sched)) (regexpCompile (demoEnv sys sched))
     ''{\"secret\":\"hunter2\"}'' =
     Inr (\<lparr>Regex = [], Literal = [(''secret'', ''hunter2'')]\<rparr>, [CompileSummary 0 1])"
proof -
  have "CompileRules (\<lambda>s. Some [(''secret'', ''hunter2'')]) (\<lambda>p. Some p)
          ''{\"secret\":\"hunter2\"}'' =
        Inr (\<lparr>Regex = [], Literal = [(''secret'', ''hunter2'')]\<rparr>, [CompileSummary 0 1])"
    by code_simp
  then show ?thesis by (simp add: demoEnv_def)
qed

lemma demo_contains: "Contains ''token=hunter2'' ''hunter2''"
  by code_simp

lemma demo_match:
  "processContent (regexpFindAll (demoEnv sys sched)) (goSchedule (demoEnv sys sched) ''src/b.js'')
     ''src/b.js'' ''token=hunter2'' \<lparr>Regex = [], Literal = [(''secret'', ''hunter2'')]\<rparr> True =
   [\<lparr>Source = ''src/b.js'', Rule = ''secret'', Match = ''hunter2''\<rparr>]"
  by (simp add: processContent_def shouldBeConcurrent_def processLiteralRules_def
      processRegexRulesSerially_def demo_contains)

lemma demo_path:
  "GetOutputFilePath (pathJoin (demoEnv sys sched)) (netUrlParse (demoEnv sys sched))
     (pathBase (demoEnv sys sched)) (OutputDir demoConfig) ''src/b.js'' = ''results/b.js''"
proof -
  have "GetOutputFilePath (\<lambda>dir name. dir @ ''/'' @ name) (\<lambda>s. None)
          (\<lambda>p. rev (takeWhile (\<lambda>c. c \<noteq> CHR ''/'') (rev p))) ''results'' ''src/b.js'' =
        ''results/b.js''"
    by code_simp
  then show ?thesis by (simp add: demoEnv_def demoConfig_def)
qed

lemma demo_unreadable:
  "ReadFile (osOf (demoEnv demoReadError sched)) ''src/a.js'' files = None"
  by (simp add: ReadFile_def demoEnv_def demoReadError_def)

lemma demo_config:
  "ReadConfigFile (osOf (demoEnv demoReadError sched)) (ConfigFile demoConfig) demoFiles =
     Some ''{\"secret\":\"hunter2\"}''"
  "ReadConfigFile (osOf (demoEnv demoWriteError sched)) (ConfigFile demoConfig) demoFiles =
     Some ''{\"secret\":\"hunter2\"}''"
  by (simp_all add: ReadConfigFile_def ReadFile_def demoEnv_def demoConfig_def demoFiles_def
      demoReadError_def demoWriteError_def)

lemma demo_b_results:
  "localFileResults (demoEnv demoReadError sched) ''src/b.js''
     \<lparr>Regex = [], Literal = [(''secret'', ''hunter2'')]\<rparr> demoFiles =
   [\<lparr>Source = ''src/b.js'', Rule = ''secret'', Match = ''hunter2''\<rparr>]"
proof -
  have r: "ReadFile (osOf (demoEnv demoReadError sched)) ''src/b.js'' demoFiles =
             Some ''token=hunter2''"
    by (simp add: ReadFile_def demoEnv_def demoReadError_def demoFiles_def)
  show ?thesis by (simp add: localFileResults_def r demo_match)
qed

lemma demo_b_write:
  "writeResults (demoEnv demoReadError sched) demoConfig ''src/b.js''
     [\<lparr>Source = ''src/b.js'', Rule = ''secret'', Match = ''hunter2''\<rparr>] demoFiles =
   demoFiles(''results/b.js'' \<mapsto> ''[src/b.js] secret: hunter2'' @ [CHR 0x0A])"
proof -
  have w: "WriteResultsToFile (osOf (demoEnv demoReadError sched)) ''results/b.js''
             [\<lparr>Source = ''src/b.js'', Rule = ''secret'', Match = ''hunter2''\<rparr>] demoFiles =
           (None, demoFiles(''results/b.js'' \<mapsto> ''[src/b.js] secret: hunter2'' @ [CHR 0x0A]))"
    by (simp add: WriteResultsToFile_def OpenFile_def fileWrite_def formatResult_def
        demoEnv_def demoReadError_def demoFiles_def)
  show ?thesis by (simp add: writeResults_def demo_path w)
qed

lemma demo_started:
  "parseFlags (demoEnv sys sched) = Flags demoConfig"
  "Regex \<lparr>Regex = [], Literal = [(''secret'', ''hunter2'')]\<rparr> \<noteq> [] \<or>
   Literal \<lparr>Regex = ([] :: (string \<times> string) list), Literal = [(''secret'', ''hunter2'')]\<rparr> \<noteq> []"
  "Mode demoConfig = ''localScan''"
  "\<not> statNotExist (demoEnv sys sched) (LocalDir demoConfig)"
  "\<not> makechanPanics (chanLimit (demoEnv sys sched)) 0 (ThreadNum demoConfig)"
  "\<not> makechanPanics (chanLimit (demoEnv sys sched)) 16 (ThreadNum demoConfig * 2)"
  "ThreadNum demoConfig \<noteq> 0"
  "\<not> exhausted (demoEnv sys sched) (unat (ThreadNum demoConfig))"
  by (simp_all add: demoEnv_def demoConfig_def makechanPanics_def)

lemma demo_width: "unat (ThreadNum demoConfig) = 4" "poolSchedule (demoEnv sys sched) = sched"
  by (simp_all add: demoConfig_def demoEnv_def)

lemma demo_main:
  "main (demoEnv demoReadError sched) demoFiles =
     (0, fst (runPool (\<lambda>filePath. localFileResults (demoEnv demoReadError sched) filePath
                         \<lparr>Regex = [], Literal = [(''secret'', ''hunter2'')]\<rparr>)
                (writeResults (demoEnv demoReadError sched) demoConfig) 4 sched
                [''src/a.js'', ''src/b.js''] [] (demoFiles, [])))"
  "main (demoEnv demoWriteError sched) demoFiles =
     (0, fst (runPool (\<lambda>filePath. localFileResults (demoEnv demoWriteError sched) filePath
                         \<lparr>Regex = [], Literal = [(''secret'', ''hunter2'')]\<rparr>)
                (writeResults (demoEnv demoWriteError sched) demoConfig) 4 sched
                [''src/a.js'', ''src/b.js''] [] (demoFiles, [])))"
  using main_local_scan [where env = "demoEnv demoReadError sched" and cfg = demoConfig
          and files = demoFiles, OF demo_started(1) demo_config(1) demo_rules demo_started(2-8)]
    main_local_scan [where env = "demoEnv demoWriteError sched" and cfg = demoConfig
          and files = demoFiles, OF demo_started(1) demo_config(2) demo_rules demo_started(2-8)]
  by (simp_all add: demo_width demo_queue)


lemma demo_exit_status:
  "fst (main (demoEnv demoReadError sched) demoFiles) = 0"
  "fst (main (demoEnv demoWriteError sched) demoFiles) = 0"
  by (simp_all add: demo_main)

lemma demo_a_results:
  "localFileResults (demoEnv demoReadError sched) ''src/a.js'' compiledRules files = []"
  by (rule localFileResults_read_error) (rule demo_unreadable)

lemma demo_b_first:
  "snd (main (demoEnv demoReadError [StartNext, StartNext, ReadSlot 1, WriteSlot 1]) demoFiles) =
     demoFiles(''results/b.js'' \<mapsto> ''[src/b.js] secret: hunter2'' @ [CHR 0x0A])"
  by (simp add: demo_main drainPool_def demo_a_results demo_b_results demo_b_write
      writeResults_nothing)

lemma demo_unwritable:
  "openFails (osOf (demoEnv demoWriteError sched)) p"
  by (simp add: demoEnv_def demoWriteError_def)

lemma demo_nothing_written:
  "snd (main (demoEnv demoWriteError sched) demoFiles) = demoFiles"
  using runPool_no_effect [of "writeResults (demoEnv demoWriteError sched) demoConfig"]
    writeResults_open_error [OF demo_unwritable]
  by (simp add: demo_main)

lemma demo_write_fails:
  "fst (WriteResultsToFile (osOf (demoEnv demoWriteError sched)) ''results/b.js''
          [\<lparr>Source = ''src/b.js'', Rule = ''secret'', Match = ''hunter2''\<rparr>] demoFiles) =
   Some (OpenFileError ''results/b.js'')"
  by (simp add: WriteResultsToFile_def OpenFile_def demoEnv_def demoWriteError_def)

text \<open>
  Claim C3. The claim, like the comments of \<^verbatim>\<open>main\<close>, has the process end with a
  status other than zero once an error has occurred during the scan. The code ends with
  status 0. In the first run below one of the two targets cannot be read; under every
  schedule the status is 0, and the other target is scanned and its result written (the
  schedule shown handles it first). In the second run no result file can be opened;
  the status is 0 again and nothing is written.
\<close>

theorem C3_exit_status_zero_after_target_errors:
  "walkLoop (shouldScanFile (demoEnv demoReadError sched))
     (walkDir (demoEnv demoReadError sched) (LocalDir demoConfig)) [] =
     [''src/a.js'', ''src/b.js''] \<and>
   ReadFile (osOf (demoEnv demoReadError sched)) ''src/a.js'' demoFiles = None \<and>
   fst (main (demoEnv demoReadError sched) demoFiles) = 0 \<and>
   snd (main (demoEnv demoReadError [StartNext, StartNext, ReadSlot 1, WriteSlot 1]) demoFiles) =
     demoFiles(''results/b.js'' \<mapsto> ''[src/b.js] secret: hunter2'' @ [CHR 0x0A]) \<and>
   fst (WriteResultsToFile (osOf (demoEnv demoWriteError sched)) ''results/b.js''
          [\<lparr>Source = ''src/b.js'', Rule = ''secret'', Match = ''hunter2''\<rparr>] demoFiles) =
     Some (OpenFileError ''results/b.js'') \<and>
   main (demoEnv demoWriteError sched) demoFiles = (0, demoFiles)"
  using demo_queue [of demoReadError sched] demo_unreadable [of sched demoFiles]
    demo_exit_status [of sched] demo_b_first demo_write_fails [of sched]
    demo_nothing_written [of sched]
  by (simp add: prod_eq_iff)

end
